theory Spec2Isabelle
  imports Main
begin

section \<open>Game of Life with wormholes: the engine of game_of_life_wormhole.py\<close>

text \<open>
  The class \<open>GameOfLifeWithWormholes\<close> keeps a grid of cells (a numpy array of
  \<open>uint8\<close> holding 0 or 1), its shape, and two dictionaries from coordinates to
  coordinates. Python exceptions are values of the type \<open>error\<close>; a function that may
  raise returns \<open>error + 'a\<close>, with \<open>Inl\<close> for the exception.
\<close>

subsection \<open>Exceptions and loops\<close>

datatype error = ZeroDivisionError | IndexError

definition bind_err :: "error + 'a \<Rightarrow> ('a \<Rightarrow> error + 'b) \<Rightarrow> error + 'b" where
  "bind_err r f = (case r of Inl e \<Rightarrow> Inl e | Inr v \<Rightarrow> f v)"

text \<open>\<open>for i in is: body\<close>, on a state that the body updates; an exception ends the loop.\<close>

fun for_each :: "'a list \<Rightarrow> ('a \<Rightarrow> 'b \<Rightarrow> error + 'b) \<Rightarrow> 'b \<Rightarrow> error + 'b" where
  "for_each [] body st = Inr st"
| "for_each (i # is) body st = bind_err (body i st) (for_each is body)"

text \<open>Python's \<open>a % n\<close> for a modulus that is a dimension: it raises when \<open>n\<close> is 0.\<close>

definition py_mod :: "int \<Rightarrow> nat \<Rightarrow> error + int" where
  "py_mod a n = (if n = 0 then Inl ZeroDivisionError else Inr (a mod int n))"

text \<open>\<open>range(n)\<close>: empty for a negative \<open>n\<close>.\<close>

definition py_range :: "int \<Rightarrow> nat list" where
  "py_range n = [0..<nat n]"

subsection \<open>Data\<close>

type_synonym coord = "int \<times> int"
type_synonym pixel = "nat \<times> nat \<times> nat"
type_synonym cells = "nat list list"
type_synonym wormhole_map = "coord \<rightharpoonup> coord"

record engine =
  grid :: cells
  height :: nat
  width :: nat
  h_wormholes :: wormhole_map
  v_wormholes :: wormhole_map

text \<open>Reading and writing one element of a two-dimensional array, at indices that are not
  negative; out of range is Python's IndexError.\<close>

definition grid_get :: "'a list list \<Rightarrow> nat \<Rightarrow> nat \<Rightarrow> error + 'a" where
  "grid_get g y x =
     (if y < length g \<and> x < length (g ! y) then Inr (g ! y ! x) else Inl IndexError)"

definition grid_set :: "'a list list \<Rightarrow> nat \<Rightarrow> nat \<Rightarrow> 'a \<Rightarrow> error + 'a list list" where
  "grid_set g y x v =
     (if y < length g \<and> x < length (g ! y) then Inr (g[y := (g ! y)[x := v]])
      else Inl IndexError)"

text \<open>\<open>_image_to_grid\<close>: a grey level above 128 is a live cell.\<close>

definition image_to_grid :: "nat list list \<Rightarrow> cells" where
  "image_to_grid img_array = map (map (\<lambda>p. if p > 128 then 1 else 0)) img_array"

subsection \<open>\<open>_build_wormhole_connections\<close>\<close>

text \<open>\<open>color_to_positions\<close> is a dictionary of lists that keeps the order of insertion:
  an association list. \<open>append_position\<close> is \<open>color_to_positions[pixel].append(pos)\<close>.\<close>

fun append_position ::
  "pixel \<Rightarrow> coord \<Rightarrow> (pixel \<times> coord list) list \<Rightarrow> (pixel \<times> coord list) list" where
  "append_position c p [] = [(c, [p])]"
| "append_position c p ((k, ps) # rest) =
     (if k = c then (k, ps @ [p]) # rest else (k, ps) # append_position c p rest)"

definition scan_pixel ::
  "pixel list list \<Rightarrow> nat \<Rightarrow> nat \<Rightarrow> (pixel \<times> coord list) list
     \<Rightarrow> error + (pixel \<times> coord list) list" where
  "scan_pixel tunnel_map y x color_to_positions =
     bind_err (grid_get tunnel_map y x) (\<lambda>pixel.
       if pixel \<noteq> (0, 0, 0)
       then Inr (append_position pixel (int y, int x) color_to_positions)
       else Inr color_to_positions)"

fun connect :: "pixel \<times> coord list \<Rightarrow> wormhole_map \<Rightarrow> wormhole_map" where
  "connect (color, positions) wormhole_map =
     (case positions of
        [pos1, pos2] \<Rightarrow> (wormhole_map(pos1 \<mapsto> pos2))(pos2 \<mapsto> pos1)
      | _ \<Rightarrow> wormhole_map)"

definition build_wormhole_connections ::
  "nat \<Rightarrow> nat \<Rightarrow> pixel list list \<Rightarrow> error + wormhole_map" where
  "build_wormhole_connections h w tunnel_map =
     bind_err
       (for_each [0..<h] (\<lambda>y. for_each [0..<w] (\<lambda>x. scan_pixel tunnel_map y x)) [])
       (\<lambda>color_to_positions. Inr (fold connect color_to_positions Map.empty))"

subsection \<open>Coordinates inside the grid\<close>

text \<open>Coordinates inside the grid, and tables whose keys and values all are.\<close>

definition in_grid :: "nat \<Rightarrow> nat \<Rightarrow> coord \<Rightarrow> bool" where
  "in_grid h w c = (0 \<le> fst c \<and> fst c < int h \<and> 0 \<le> snd c \<and> snd c < int w)"

definition table_in_grid :: "nat \<Rightarrow> nat \<Rightarrow> wormhole_map \<Rightarrow> bool" where
  "table_in_grid h w m = (\<forall>k v. m k = Some v \<longrightarrow> in_grid h w k \<and> in_grid h w v)"

subsection \<open>\<open>_get_wormhole_neighbor\<close>\<close>

text \<open>The function is a sequence of guarded blocks, each of which either returns or lets
  control fall to the next one. A block is a value of type \<open>(error + coord) option\<close>:
  \<open>None\<close> when it does not return.\<close>

definition or_else :: "'a option \<Rightarrow> 'a option \<Rightarrow> 'a option" where
  "or_else a b = (case a of Some r \<Rightarrow> Some r | None \<Rightarrow> b)"

definition horizontal_move ::
  "engine \<Rightarrow> int \<Rightarrow> int \<Rightarrow> int \<Rightarrow> int \<Rightarrow> (error + coord) option" where
  "horizontal_move s y x dy dx =
     (if dy = 0 \<and> dx \<noteq> 0 then
        (case h_wormholes s (y, x) of
           None \<Rightarrow> None
         | Some (ny, nx) \<Rightarrow>
             Some (if dx > 0
                   then bind_err (py_mod (nx + 1) (width s)) (\<lambda>c. Inr (ny, c))
                   else bind_err (py_mod (nx - 1) (width s)) (\<lambda>c. Inr (ny, c))))
      else None)"

definition vertical_move ::
  "engine \<Rightarrow> int \<Rightarrow> int \<Rightarrow> int \<Rightarrow> int \<Rightarrow> (error + coord) option" where
  "vertical_move s y x dy dx =
     (if dx = 0 \<and> dy \<noteq> 0 then
        (case v_wormholes s (y, x) of
           None \<Rightarrow> None
         | Some (ny, nx) \<Rightarrow>
             Some (if dy > 0
                   then bind_err (py_mod (ny + 1) (height s)) (\<lambda>r. Inr (r, nx))
                   else bind_err (py_mod (ny - 1) (height s)) (\<lambda>r. Inr (r, nx))))
      else None)"

definition top_move ::
  "engine \<Rightarrow> int \<Rightarrow> int \<Rightarrow> int \<Rightarrow> int \<Rightarrow> (error + coord) option" where
  "top_move s y x dy dx =
     (case (if dy < 0 then v_wormholes s (y, x) else None) of
        None \<Rightarrow> None
      | Some (ny, nx) \<Rightarrow>
          Some (bind_err (py_mod (nx + dx) (width s)) (\<lambda>new_x.
                bind_err (py_mod (ny - 1) (height s)) (\<lambda>r. Inr (r, new_x)))))"

definition right_move ::
  "engine \<Rightarrow> int \<Rightarrow> int \<Rightarrow> int \<Rightarrow> int \<Rightarrow> (error + coord) option" where
  "right_move s y x dy dx =
     (case (if dx > 0 then h_wormholes s (y, x) else None) of
        None \<Rightarrow> None
      | Some (ny, nx) \<Rightarrow>
          Some (bind_err (py_mod (ny + dy) (height s)) (\<lambda>new_y.
                bind_err (py_mod (nx + 1) (width s)) (\<lambda>c. Inr (new_y, c)))))"

definition bottom_move ::
  "engine \<Rightarrow> int \<Rightarrow> int \<Rightarrow> int \<Rightarrow> int \<Rightarrow> (error + coord) option" where
  "bottom_move s y x dy dx =
     (case (if dy > 0 then v_wormholes s (y, x) else None) of
        None \<Rightarrow> None
      | Some (ny, nx) \<Rightarrow>
          Some (bind_err (py_mod (nx + dx) (width s)) (\<lambda>new_x.
                bind_err (py_mod (ny + 1) (height s)) (\<lambda>r. Inr (r, new_x)))))"

definition left_move ::
  "engine \<Rightarrow> int \<Rightarrow> int \<Rightarrow> int \<Rightarrow> int \<Rightarrow> (error + coord) option" where
  "left_move s y x dy dx =
     (case (if dx < 0 then h_wormholes s (y, x) else None) of
        None \<Rightarrow> None
      | Some (ny, nx) \<Rightarrow>
          Some (bind_err (py_mod (ny + dy) (height s)) (\<lambda>new_y.
                bind_err (py_mod (nx - 1) (width s)) (\<lambda>c. Inr (new_y, c)))))"

definition diagonal_move ::
  "engine \<Rightarrow> int \<Rightarrow> int \<Rightarrow> int \<Rightarrow> int \<Rightarrow> (error + coord) option" where
  "diagonal_move s y x dy dx =
     (if dy \<noteq> 0 \<and> dx \<noteq> 0 then
        or_else (top_move s y x dy dx)
          (or_else (right_move s y x dy dx)
            (or_else (bottom_move s y x dy dx) (left_move s y x dy dx)))
      else None)"

definition regular_neighbor :: "engine \<Rightarrow> int \<Rightarrow> int \<Rightarrow> int \<Rightarrow> int \<Rightarrow> error + coord" where
  "regular_neighbor s y x dy dx =
     bind_err (py_mod (y + dy) (height s)) (\<lambda>new_y.
     bind_err (py_mod (x + dx) (width s)) (\<lambda>new_x. Inr (new_y, new_x)))"

definition get_wormhole_neighbor :: "engine \<Rightarrow> int \<Rightarrow> int \<Rightarrow> int \<Rightarrow> int \<Rightarrow> error + coord" where
  "get_wormhole_neighbor s y x dy dx =
     (case or_else (horizontal_move s y x dy dx)
             (or_else (vertical_move s y x dy dx) (diagonal_move s y x dy dx)) of
        Some r \<Rightarrow> r
      | None \<Rightarrow> regular_neighbor s y x dy dx)"

subsection \<open>\<open>_count_neighbors\<close>, \<open>step\<close> and \<open>run_simulation\<close>\<close>

definition count_one :: "engine \<Rightarrow> cells \<Rightarrow> int \<Rightarrow> int \<Rightarrow> int \<Rightarrow> int \<Rightarrow> nat \<Rightarrow> error + nat" where
  "count_one s g y x dy dx count =
     (if dy = 0 \<and> dx = 0 then Inr count
      else bind_err (get_wormhole_neighbor s y x dy dx) (\<lambda>(ny, nx).
        if 0 \<le> ny \<and> ny < int (height s) \<and> 0 \<le> nx \<and> nx < int (width s)
        then bind_err (grid_get g (nat ny) (nat nx)) (\<lambda>c. Inr (count + c))
        else Inr count))"

definition count_neighbors :: "engine \<Rightarrow> cells \<Rightarrow> int \<Rightarrow> int \<Rightarrow> error + nat" where
  "count_neighbors s g y x =
     for_each [-1, 0, 1] (\<lambda>dy. for_each [-1, 0, 1] (\<lambda>dx. count_one s g y x dy dx)) 0"

definition step_cell :: "engine \<Rightarrow> nat \<Rightarrow> nat \<Rightarrow> cells \<Rightarrow> error + cells" where
  "step_cell s y x new_grid =
     bind_err (count_neighbors s (grid s) (int y) (int x)) (\<lambda>neighbors.
     bind_err (grid_get (grid s) y x) (\<lambda>cell.
       if cell = 1 then
         (if neighbors < 2 \<or> neighbors > 3 then grid_set new_grid y x 0 else Inr new_grid)
       else
         (if neighbors = 3 then grid_set new_grid y x 1 else Inr new_grid)))"

text \<open>\<open>step\<close> returns the new grid and leaves it in \<open>self.grid\<close>: the result is the
  returned grid with the engine after the call.\<close>

definition step :: "engine \<Rightarrow> error + cells \<times> engine" where
  "step s =
     bind_err
       (for_each [0..<height s] (\<lambda>y. for_each [0..<width s] (\<lambda>x. step_cell s y x)) (grid s))
       (\<lambda>new_grid. Inr (new_grid, s\<lparr>grid := new_grid\<rparr>))"

text \<open>\<open>self.step()\<close> as a statement: the returned grid is dropped.\<close>

definition advance :: "engine \<Rightarrow> error + engine" where
  "advance st = bind_err (step st) (\<lambda>(new_grid, st'). Inr st')"

definition run_simulation :: "engine \<Rightarrow> int \<Rightarrow> error + cells \<times> engine" where
  "run_simulation s steps =
     bind_err (for_each (py_range steps) (\<lambda>_. advance) s) (\<lambda>st. Inr (grid st, st))"

subsection \<open>What the loops compute\<close>

text \<open>What one direction adds to the count of \<open>_count_neighbors\<close>: the cell at the
  resolved neighbour, when that lies inside the grid.\<close>

definition contribution :: "engine \<Rightarrow> cells \<Rightarrow> int \<Rightarrow> int \<Rightarrow> int \<Rightarrow> int \<Rightarrow> nat" where
  "contribution s g y x dy dx =
     (case get_wormhole_neighbor s y x dy dx of
        Inl e \<Rightarrow> 0
      | Inr (ny, nx) \<Rightarrow> if in_grid (height s) (width s) (ny, nx) then g ! nat ny ! nat nx else 0)"

text \<open>What one round of the loop of \<open>step\<close> leaves at \<open>(y, x)\<close> of \<open>new_grid\<close>, which held
  \<open>old\<close> there: the round writes a 0, writes a 1, or writes nothing.\<close>

definition cell_after :: "engine \<Rightarrow> nat \<Rightarrow> nat \<Rightarrow> nat \<Rightarrow> nat" where
  "cell_after s y x old =
     (case count_neighbors s (grid s) (int y) (int x) of
        Inl e \<Rightarrow> old
      | Inr neighbors \<Rightarrow>
          if grid s ! y ! x = 1 then (if neighbors < 2 \<or> neighbors > 3 then 0 else old)
          else (if neighbors = 3 then 1 else old))"

subsection \<open>Well-formed engines\<close>

text \<open>The constructor takes \<open>height\<close> and \<open>width\<close> from the shape of the grid, and
  \<open>_image_to_grid\<close> produces only 0 and 1: the grid of an engine is a rectangle of
  \<open>height\<close> rows of \<open>width\<close> cells, each 0 or 1.\<close>

definition grid_ok :: "nat \<Rightarrow> nat \<Rightarrow> cells \<Rightarrow> bool" where
  "grid_ok h w g =
     (length g = h \<and> list_all (\<lambda>row. length row = w \<and> list_all (\<lambda>c. c \<le> 1) row) g)"

definition engine_ok :: "engine \<Rightarrow> bool" where
  "engine_ok s = grid_ok (height s) (width s) (grid s)"

text \<open>A tunnel map in which every position that the builder reads exists.\<close>

definition tunnel_ok :: "nat \<Rightarrow> nat \<Rightarrow> pixel list list \<Rightarrow> bool" where
  "tunnel_ok h w tunnel_map =
     list_all (\<lambda>y. list_all (\<lambda>x. y < length tunnel_map \<and> x < length (tunnel_map ! y)) [0..<w])
              [0..<h]"

subsection \<open>Colour groups\<close>

text \<open>The positions that the builder scans are those of \<open>List.product [0..<h] [0..<w]\<close>,
  row by row. The colour group of a colour is the list of the scanned positions that
  carry it.\<close>

definition coord_of :: "nat \<times> nat \<Rightarrow> coord" where
  "coord_of p = (int (fst p), int (snd p))"

definition color_at :: "pixel list list \<Rightarrow> nat \<times> nat \<Rightarrow> pixel" where
  "color_at tunnel_map p = tunnel_map ! fst p ! snd p"

definition positions_of_color :: "nat \<Rightarrow> nat \<Rightarrow> pixel list list \<Rightarrow> pixel \<Rightarrow> (nat \<times> nat) list" where
  "positions_of_color h w tunnel_map c =
     filter (\<lambda>p. color_at tunnel_map p = c) (List.product [0..<h] [0..<w])"

text \<open>The colour group of \<open>c\<close> among the positions \<open>ps\<close>, as coordinates.\<close>

definition color_group :: "pixel list list \<Rightarrow> (nat \<times> nat) list \<Rightarrow> pixel \<Rightarrow> coord list" where
  "color_group tunnel_map ps c = map coord_of (filter (\<lambda>p. color_at tunnel_map p = c) ps)"

text \<open>One round of the scan, when the read of the pixel succeeds.\<close>

definition note_pixel ::
  "pixel list list \<Rightarrow> nat \<times> nat \<Rightarrow> (pixel \<times> coord list) list \<Rightarrow> (pixel \<times> coord list) list" where
  "note_pixel tunnel_map p color_to_positions =
     (if color_at tunnel_map p \<noteq> (0, 0, 0)
      then append_position (color_at tunnel_map p) (coord_of p) color_to_positions
      else color_to_positions)"

subsection \<open>The specification's Game of Life on a torus\<close>

text \<open>The rule of the specification: a live cell with two or three live neighbours lives
  on, a dead cell with exactly three comes alive, every other cell is dead.\<close>

definition life_rule :: "nat \<Rightarrow> nat \<Rightarrow> nat" where
  "life_rule cell n =
     (if cell = 1 then (if n = 2 \<or> n = 3 then 1 else 0) else (if n = 3 then 1 else 0))"

definition directions :: "(int \<times> int) list" where
  "directions = [(-1, -1), (-1, 0), (-1, 1), (0, -1), (0, 1), (1, -1), (1, 0), (1, 1)]"

definition torus_count :: "nat \<Rightarrow> nat \<Rightarrow> cells \<Rightarrow> int \<Rightarrow> int \<Rightarrow> nat" where
  "torus_count h w g y x =
     sum_list (map (\<lambda>(dy, dx). g ! nat ((y + dy) mod int h) ! nat ((x + dx) mod int w))
                   directions)"

definition torus_step :: "nat \<Rightarrow> nat \<Rightarrow> cells \<Rightarrow> cells" where
  "torus_step h w g =
     map (\<lambda>y. map (\<lambda>x. life_rule (g ! y ! x) (torus_count h w g (int y) (int x))) [0..<w])
         [0..<h]"

subsection \<open>Example engines\<close>

text \<open>The horizontal blinker on a 3 by 3 grid and on a 5 by 5 grid, without wormholes.\<close>

definition blinker :: engine where
  "blinker =
     \<lparr>grid = [[0, 0, 0], [1, 1, 1], [0, 0, 0]], height = 3, width = 3,
      h_wormholes = Map.empty, v_wormholes = Map.empty\<rparr>"

definition blinker5 :: engine where
  "blinker5 =
     \<lparr>grid = [[0, 0, 0, 0, 0], [0, 0, 0, 0, 0], [0, 1, 1, 1, 0], [0, 0, 0, 0, 0],
              [0, 0, 0, 0, 0]],
      height = 5, width = 5, h_wormholes = Map.empty, v_wormholes = Map.empty\<rparr>"

text \<open>A 3 by 3 engine whose corner \<open>(0, 0)\<close> is an end of a horizontal wormhole to
  \<open>(0, 2)\<close> and of a vertical wormhole to \<open>(2, 0)\<close>, with the tunnel maps that give
  these tables.\<close>

definition portal_h_tunnel :: "pixel list list" where
  "portal_h_tunnel =
     [[(255, 0, 0), (0, 0, 0), (255, 0, 0)],
      [(0, 0, 0), (0, 0, 0), (0, 0, 0)],
      [(0, 0, 0), (0, 0, 0), (0, 0, 0)]]"

definition portal_v_tunnel :: "pixel list list" where
  "portal_v_tunnel =
     [[(0, 255, 0), (0, 0, 0), (0, 0, 0)],
      [(0, 0, 0), (0, 0, 0), (0, 0, 0)],
      [(0, 255, 0), (0, 0, 0), (0, 0, 0)]]"

definition portal :: engine where
  "portal =
     \<lparr>grid = [[0, 1, 0], [1, 1, 0], [0, 0, 1]], height = 3, width = 3,
      h_wormholes = (Map.empty((0, 0) \<mapsto> (0, 2)))((0, 2) \<mapsto> (0, 0)),
      v_wormholes = (Map.empty((0, 0) \<mapsto> (2, 0)))((2, 0) \<mapsto> (0, 0))\<rparr>"

text \<open>A grid one column wide whose two cells carry the same colour in the horizontal
  tunnel map.\<close>

definition column_tunnel :: "pixel list list" where
  "column_tunnel = [[(255, 0, 0)], [(255, 0, 0)]]"

definition column :: engine where
  "column =
     \<lparr>grid = [[1], [0]], height = 2, width = 1,
      h_wormholes = (Map.empty((0, 0) \<mapsto> (1, 0)))((1, 0) \<mapsto> (0, 0)),
      v_wormholes = Map.empty\<rparr>"

text \<open>A grid one row high whose two cells carry the same colour in the vertical tunnel
  map.\<close>

definition strip_tunnel :: "pixel list list" where
  "strip_tunnel = [[(0, 255, 0), (0, 255, 0)]]"

definition strip :: engine where
  "strip =
     \<lparr>grid = [[0, 1]], height = 1, width = 2,
      h_wormholes = Map.empty,
      v_wormholes = (Map.empty((0, 0) \<mapsto> (0, 1)))((0, 1) \<mapsto> (0, 0))\<rparr>"

text \<open>A tunnel map with a colour at one position, a colour at three positions and a
  colour at two positions, and the table with the one pair of the last colour.\<close>

definition mixed_tunnel :: "pixel list list" where
  "mixed_tunnel =
     [[(255, 0, 0), (0, 255, 0), (0, 255, 0)],
      [(0, 255, 0), (0, 0, 255), (0, 0, 255)]]"

definition mixed_table :: wormhole_map where
  "mixed_table = (Map.empty((1, 1) \<mapsto> (1, 2)))((1, 2) \<mapsto> (1, 1))"

section \<open>Loops and exceptions: general facts\<close>

lemma bind_err_Inr [simp]: "bind_err (Inr v) f = f v"
  by (simp add: bind_err_def)

lemma bind_err_Inl [simp]: "bind_err (Inl e) f = Inl e"
  by (simp add: bind_err_def)

lemma for_each_append:
  "for_each (xs @ ys) body st = bind_err (for_each xs body st) (for_each ys body)"
proof (induction xs arbitrary: st)
  case Nil
  show ?case by simp
next
  case (Cons i xs)
  show ?case
    by (cases "body i st") (simp_all add: Cons.IH)
qed

section \<open>Resolving and counting neighbours\<close>

lemma py_mod_pos: "0 < n \<Longrightarrow> py_mod a n = Inr (a mod int n)"
  by (simp add: py_mod_def)

lemmas move_defs = horizontal_move_def vertical_move_def diagonal_move_def top_move_def
  right_move_def bottom_move_def left_move_def regular_neighbor_def or_else_def

lemma neighbor_returns:
  assumes "0 < height s" "0 < width s"
  shows "\<exists>c. get_wormhole_neighbor s y x dy dx = Inr c"
  using assms
  by (auto simp: get_wormhole_neighbor_def move_defs py_mod_pos split: option.splits)

lemma grid_ok_row: "grid_ok h w g \<Longrightarrow> y < h \<Longrightarrow> length (g ! y) = w"
  by (simp add: grid_ok_def list_all_length)

lemma grid_ok_cell: "grid_ok h w g \<Longrightarrow> y < h \<Longrightarrow> x < w \<Longrightarrow> g ! y ! x \<le> 1"
  by (simp add: grid_ok_def list_all_length)

lemma grid_ok_get: "grid_ok h w g \<Longrightarrow> y < h \<Longrightarrow> x < w \<Longrightarrow> grid_get g y x = Inr (g ! y ! x)"
  by (simp add: grid_ok_def list_all_length grid_get_def)

text \<open>The grid that \<open>_image_to_grid\<close> makes of a rectangular image is well formed.\<close>

lemma image_to_grid_ok:
  "list_all (\<lambda>row. length row = w) img_array \<Longrightarrow>
     grid_ok (length img_array) w (image_to_grid img_array)"
  by (simp add: grid_ok_def image_to_grid_def list_all_length)

lemma count_one_eq:
  assumes "0 < height s" "0 < width s" "grid_ok (height s) (width s) g" "dy \<noteq> 0 \<or> dx \<noteq> 0"
  shows "count_one s g y x dy dx c = Inr (c + contribution s g y x dy dx)"
proof -
  obtain ny nx where n: "get_wormhole_neighbor s y x dy dx = Inr (ny, nx)"
    using neighbor_returns [OF assms(1,2)] by (metis surj_pair)
  show ?thesis
  proof (cases "in_grid (height s) (width s) (ny, nx)")
    case True
    then have "nat ny < height s" "nat nx < width s"
      by (auto simp: in_grid_def)
    then have "grid_get g (nat ny) (nat nx) = Inr (g ! nat ny ! nat nx)"
      using assms(3) by (simp add: grid_ok_get)
    with True n assms(4) show ?thesis
      by (auto simp: count_one_def contribution_def in_grid_def)
  next
    case False
    with n assms(4) show ?thesis
      by (auto simp: count_one_def contribution_def in_grid_def)
  qed
qed

lemma count_one_self: "count_one s g y x 0 0 c = Inr c"
  by (simp add: count_one_def)

lemma count_neighbors_eq:
  assumes "0 < height s" "0 < width s" "grid_ok (height s) (width s) g"
  shows "count_neighbors s g y x =
           Inr (sum_list (map (\<lambda>(dy, dx). contribution s g y x dy dx) directions))"
  by (simp add: count_neighbors_def directions_def count_one_self count_one_eq [OF assms])

lemma contribution_le:
  assumes "grid_ok (height s) (width s) g"
  shows "contribution s g y x dy dx \<le> 1"
proof (cases "get_wormhole_neighbor s y x dy dx")
  case (Inl e)
  then show ?thesis by (simp add: contribution_def)
next
  case (Inr c)
  obtain ny nx where c: "c = (ny, nx)" by (cases c)
  show ?thesis
  proof (cases "in_grid (height s) (width s) (ny, nx)")
    case True
    then have "nat ny < height s" "nat nx < width s"
      by (auto simp: in_grid_def)
    then have "g ! nat ny ! nat nx \<le> 1"
      using assms by (rule_tac grid_ok_cell)
    with Inr c True show ?thesis by (simp add: contribution_def)
  next
    case False
    with Inr c show ?thesis by (simp add: contribution_def)
  qed
qed

lemma count_neighbors_le:
  assumes "0 < height s" "0 < width s" "grid_ok (height s) (width s) g"
  shows "\<exists>n. count_neighbors s g y x = Inr n \<and> n \<le> 8"
proof -
  have "sum_list (map (\<lambda>(dy, dx). contribution s g y x dy dx) directions) \<le> 8"
    using contribution_le [OF assms(3), of y x "-1" "-1"]
      contribution_le [OF assms(3), of y x "-1" 0] contribution_le [OF assms(3), of y x "-1" 1]
      contribution_le [OF assms(3), of y x 0 "-1"] contribution_le [OF assms(3), of y x 0 1]
      contribution_le [OF assms(3), of y x 1 "-1"] contribution_le [OF assms(3), of y x 1 0]
      contribution_le [OF assms(3), of y x 1 1]
    by (simp add: directions_def)
  then show ?thesis by (simp add: count_neighbors_eq [OF assms])
qed

section \<open>The loops of \<open>step\<close>\<close>

lemma step_cell_eq:
  assumes ok: "engine_ok s" and y: "y < height s" and x: "x < width s"
    and ng: "length ng = height s" "length (ng ! y) = width s"
  shows "step_cell s y x ng = Inr (ng[y := (ng ! y)[x := cell_after s y x (ng ! y ! x)]])"
proof -
  have g: "grid_ok (height s) (width s) (grid s)"
    using ok by (simp add: engine_ok_def)
  have pos: "0 < height s" "0 < width s"
    using y x by simp_all
  obtain n where n: "count_neighbors s (grid s) (int y) (int x) = Inr n"
    using count_neighbors_eq [OF pos g] by blast
  have c: "grid_get (grid s) y x = Inr (grid s ! y ! x)"
    using g y x by (rule grid_ok_get)
  have same: "ng[y := (ng ! y)[x := ng ! y ! x]] = ng"
    by simp
  show ?thesis
    using y x ng
    by (simp add: step_cell_def cell_after_def n c grid_set_def same)
qed

lemma row_loop:
  assumes ok: "engine_ok s" and y: "y < height s"
    and ng: "length ng = height s" "length (ng ! y) = width s"
  shows "k \<le> width s \<Longrightarrow>
     for_each [0..<k] (\<lambda>x. step_cell s y x) ng =
       Inr (ng[y := map (\<lambda>x. if x < k then cell_after s y x (ng ! y ! x) else ng ! y ! x)
                        [0..<width s]])"
proof (induction k)
  case 0
  have "map (\<lambda>x. ng ! y ! x) [0..<width s] = ng ! y"
    using ng(2) by (metis map_nth)
  then show ?case by simp
next
  case (Suc k)
  let ?row = "\<lambda>k. map (\<lambda>x. if x < k then cell_after s y x (ng ! y ! x) else ng ! y ! x)
                        [0..<width s]"
  have k: "k < width s" using Suc.prems by simp
  have before: "for_each [0..<k] (\<lambda>x. step_cell s y x) ng = Inr (ng[y := ?row k])"
    using Suc.IH k by simp
  have len: "length (ng[y := ?row k]) = height s" "length (ng[y := ?row k] ! y) = width s"
    using ng y by simp_all
  have at: "ng[y := ?row k] ! y = ?row k"
    using ng y by simp
  have "(?row k)[k := cell_after s y k (?row k ! k)] = ?row (Suc k)"
    using k by (intro nth_equalityI) (auto simp: nth_list_update less_Suc_eq)
  then have "step_cell s y k (ng[y := ?row k]) = Inr (ng[y := ?row (Suc k)])"
    using step_cell_eq [OF ok y k len] by (simp add: at)
  then show ?case
    by (simp add: for_each_append before)
qed

lemma row_loop_all:
  assumes "engine_ok s" "y < height s" "length ng = height s" "length (ng ! y) = width s"
  shows "for_each [0..<width s] (\<lambda>x. step_cell s y x) ng =
           Inr (ng[y := map (\<lambda>x. cell_after s y x (ng ! y ! x)) [0..<width s]])"
proof -
  have eq: "map (\<lambda>x. if x < width s then cell_after s y x (ng ! y ! x) else ng ! y ! x) [0..<width s]
        = map (\<lambda>x. cell_after s y x (ng ! y ! x)) [0..<width s]"
    by simp
  have "for_each [0..<width s] (\<lambda>x. step_cell s y x) ng =
       Inr (ng[y := map (\<lambda>x. if x < width s then cell_after s y x (ng ! y ! x) else ng ! y ! x)
                        [0..<width s]])"
    by (rule row_loop [OF assms]) simp
  then show ?thesis
    unfolding eq .
qed

lemma grid_loop:
  assumes ok: "engine_ok s"
    and ng: "length ng = height s" "\<forall>y < height s. length (ng ! y) = width s"
  shows "k \<le> height s \<Longrightarrow>
     for_each [0..<k] (\<lambda>y. for_each [0..<width s] (\<lambda>x. step_cell s y x)) ng =
       Inr (map (\<lambda>y. if y < k then map (\<lambda>x. cell_after s y x (ng ! y ! x)) [0..<width s]
                      else ng ! y)
                [0..<height s])"
proof (induction k)
  case 0
  have "map (\<lambda>y. ng ! y) [0..<height s] = ng"
    using ng(1) by (metis map_nth)
  then show ?case by simp
next
  case (Suc k)
  let ?new = "\<lambda>y. map (\<lambda>x. cell_after s y x (ng ! y ! x)) [0..<width s]"
  let ?g = "\<lambda>k. map (\<lambda>y. if y < k then ?new y else ng ! y) [0..<height s]"
  have k: "k < height s" using Suc.prems by simp
  have before: "for_each [0..<k] (\<lambda>y. for_each [0..<width s] (\<lambda>x. step_cell s y x)) ng
                  = Inr (?g k)"
    using Suc.IH k by simp
  have at: "?g k ! k = ng ! k"
    using k by simp
  have len: "length (?g k) = height s" "length (?g k ! k) = width s"
    using ng k by simp_all
  have "(?g k)[k := ?new k] = ?g (Suc k)"
    using k by (intro nth_equalityI) (auto simp: nth_list_update less_Suc_eq)
  then have "for_each [0..<width s] (\<lambda>x. step_cell s k x) (?g k) = Inr (?g (Suc k))"
    using row_loop_all [OF ok k len] by (simp add: at)
  then show ?case
    by (simp add: for_each_append before)
qed

lemma step_eq:
  assumes ok: "engine_ok s"
  defines "new_grid \<equiv> map (\<lambda>y. map (\<lambda>x. cell_after s y x (grid s ! y ! x)) [0..<width s])
                           [0..<height s]"
  shows "step s = Inr (new_grid, s\<lparr>grid := new_grid\<rparr>)"
proof -
  have g: "grid_ok (height s) (width s) (grid s)"
    using ok by (simp add: engine_ok_def)
  have len: "length (grid s) = height s" "\<forall>y < height s. length (grid s ! y) = width s"
    using g by (simp_all add: grid_ok_def list_all_length)
  have "for_each [0..<height s] (\<lambda>y. for_each [0..<width s] (\<lambda>x. step_cell s y x)) (grid s)
          = Inr new_grid"
    using grid_loop [OF ok len, of "height s"] by (simp add: new_grid_def)
  then show ?thesis by (simp add: step_def)
qed

lemma cell_after_rule:
  assumes ok: "engine_ok s" and y: "y < height s" and x: "x < width s"
  shows "\<exists>n. count_neighbors s (grid s) (int y) (int x) = Inr n \<and> n \<le> 8 \<and>
           cell_after s y x (grid s ! y ! x) = life_rule (grid s ! y ! x) n"
proof -
  have g: "grid_ok (height s) (width s) (grid s)"
    using ok by (simp add: engine_ok_def)
  have pos: "0 < height s" "0 < width s"
    using y x by simp_all
  obtain n where n: "count_neighbors s (grid s) (int y) (int x) = Inr n" "n \<le> 8"
    using count_neighbors_le [OF pos g] by blast
  have "grid s ! y ! x \<le> 1"
    using g y x by (rule grid_ok_cell)
  then have "cell_after s y x (grid s ! y ! x) = life_rule (grid s ! y ! x) n"
    by (auto simp: cell_after_def n life_rule_def)
  with n show ?thesis by blast
qed

section \<open>One generation\<close>

lemma step_returns:
  assumes ok: "engine_ok s"
  shows "\<exists>new_grid. step s = Inr (new_grid, s\<lparr>grid := new_grid\<rparr>) \<and>
           grid_ok (height s) (width s) new_grid \<and>
           (\<forall>y < height s. \<forall>x < width s.
              \<exists>n. count_neighbors s (grid s) (int y) (int x) = Inr n \<and> n \<le> 8 \<and>
                  new_grid ! y ! x = life_rule (grid s ! y ! x) n)"
proof -
  define new_grid where
    "new_grid = map (\<lambda>y. map (\<lambda>x. cell_after s y x (grid s ! y ! x)) [0..<width s])
                    [0..<height s]"
  have st: "step s = Inr (new_grid, s\<lparr>grid := new_grid\<rparr>)"
    unfolding new_grid_def by (rule step_eq [OF ok])
  have cells: "\<exists>n. count_neighbors s (grid s) (int y) (int x) = Inr n \<and> n \<le> 8 \<and>
                  new_grid ! y ! x = life_rule (grid s ! y ! x) n"
    if "y < height s" "x < width s" for y x
    using cell_after_rule [OF ok that] that by (simp add: new_grid_def)
  have "new_grid ! y ! x \<le> 1" if "y < height s" "x < width s" for y x
    using cells [OF that] by (auto simp: life_rule_def)
  then have "grid_ok (height s) (width s) new_grid"
    by (simp add: grid_ok_def list_all_length new_grid_def)
  with st cells show ?thesis by blast
qed

lemma engine_ok_blinker5: "engine_ok blinker5"
  by (simp add: engine_ok_def grid_ok_def blinker5_def)

text \<open>
  C1. On an engine whose grid is \<open>height\<close> by \<open>width\<close> cells of 0 and 1, \<open>step\<close>
  returns a new grid of the same dimensions and leaves it in the engine. Every cell of
  the new grid follows from the grid before the step alone: with \<open>n\<close> the count that
  \<open>_count_neighbors\<close> returns on the old grid, a live cell with \<open>n < 2\<close> or \<open>n > 3\<close>
  becomes 0, a live cell with \<open>n\<close> 2 or 3 stays 1, a dead cell with \<open>n = 3\<close> becomes 1
  and any other dead cell stays 0.
\<close>

theorem step_applies_rule:
  assumes "engine_ok s"
  shows "\<exists>new_grid. step s = Inr (new_grid, s\<lparr>grid := new_grid\<rparr>) \<and>
           length new_grid = height s \<and>
           (\<forall>y < height s. length (new_grid ! y) = width s \<and>
              (\<forall>x < width s.
                \<exists>n. count_neighbors s (grid s) (int y) (int x) = Inr n \<and>
                    (grid s ! y ! x = 1 \<and> (n < 2 \<or> n > 3) \<longrightarrow> new_grid ! y ! x = 0) \<and>
                    (grid s ! y ! x = 1 \<and> (n = 2 \<or> n = 3) \<longrightarrow> new_grid ! y ! x = 1) \<and>
                    (grid s ! y ! x = 0 \<and> n = 3 \<longrightarrow> new_grid ! y ! x = 1) \<and>
                    (grid s ! y ! x = 0 \<and> n \<noteq> 3 \<longrightarrow> new_grid ! y ! x = 0) \<and>
                    (grid s ! y ! x = 0 \<or> grid s ! y ! x = 1)))"
proof -
  have g: "grid_ok (height s) (width s) (grid s)"
    using assms by (simp add: engine_ok_def)
  obtain new_grid where st: "step s = Inr (new_grid, s\<lparr>grid := new_grid\<rparr>)"
    and shape: "grid_ok (height s) (width s) new_grid"
    and cells: "\<forall>y < height s. \<forall>x < width s.
              \<exists>n. count_neighbors s (grid s) (int y) (int x) = Inr n \<and> n \<le> 8 \<and>
                  new_grid ! y ! x = life_rule (grid s ! y ! x) n"
    using step_returns [OF assms] by blast
  have "length new_grid = height s"
    using shape by (simp add: grid_ok_def)
  moreover have "length (new_grid ! y) = width s" if "y < height s" for y
    using shape that by (rule grid_ok_row)
  moreover have "\<exists>n. count_neighbors s (grid s) (int y) (int x) = Inr n \<and>
                    (grid s ! y ! x = 1 \<and> (n < 2 \<or> n > 3) \<longrightarrow> new_grid ! y ! x = 0) \<and>
                    (grid s ! y ! x = 1 \<and> (n = 2 \<or> n = 3) \<longrightarrow> new_grid ! y ! x = 1) \<and>
                    (grid s ! y ! x = 0 \<and> n = 3 \<longrightarrow> new_grid ! y ! x = 1) \<and>
                    (grid s ! y ! x = 0 \<and> n \<noteq> 3 \<longrightarrow> new_grid ! y ! x = 0) \<and>
                    (grid s ! y ! x = 0 \<or> grid s ! y ! x = 1)"
    if yx: "y < height s" "x < width s" for y x
  proof -
    obtain n where n: "count_neighbors s (grid s) (int y) (int x) = Inr n"
      and new: "new_grid ! y ! x = life_rule (grid s ! y ! x) n"
      using cells yx by blast
    have "grid s ! y ! x \<le> 1"
      using g yx by (rule grid_ok_cell)
    then have "grid s ! y ! x = 0 \<or> grid s ! y ! x = 1"
      by arith
    with n new show ?thesis
      by (auto simp: life_rule_def)
  qed
  ultimately show ?thesis using st by blast
qed

theorem step_applies_rule_witness:
  "engine_ok blinker5 \<and>
   (\<exists>new_grid. step blinker5 = Inr (new_grid, blinker5\<lparr>grid := new_grid\<rparr>) \<and>
           length new_grid = height blinker5 \<and>
           (\<forall>y < height blinker5. length (new_grid ! y) = width blinker5 \<and>
              (\<forall>x < width blinker5.
                \<exists>n. count_neighbors blinker5 (grid blinker5) (int y) (int x) = Inr n \<and>
                    (grid blinker5 ! y ! x = 1 \<and> (n < 2 \<or> n > 3) \<longrightarrow> new_grid ! y ! x = 0) \<and>
                    (grid blinker5 ! y ! x = 1 \<and> (n = 2 \<or> n = 3) \<longrightarrow> new_grid ! y ! x = 1) \<and>
                    (grid blinker5 ! y ! x = 0 \<and> n = 3 \<longrightarrow> new_grid ! y ! x = 1) \<and>
                    (grid blinker5 ! y ! x = 0 \<and> n \<noteq> 3 \<longrightarrow> new_grid ! y ! x = 0) \<and>
                    (grid blinker5 ! y ! x = 0 \<or> grid blinker5 ! y ! x = 1))))"
  using engine_ok_blinker5 step_applies_rule [OF engine_ok_blinker5] by (rule conjI)

section \<open>Without wormholes: the torus\<close>

lemma neighbor_no_wormholes:
  assumes "0 < height s" "0 < width s"
    and "h_wormholes s (y, x) = None" "v_wormholes s (y, x) = None"
  shows "get_wormhole_neighbor s y x dy dx =
           Inr ((y + dy) mod int (height s), (x + dx) mod int (width s))"
  using assms
  by (auto simp: get_wormhole_neighbor_def move_defs py_mod_pos split: option.splits)

lemma contribution_no_wormholes:
  assumes "0 < height s" "0 < width s"
    and "h_wormholes s (y, x) = None" "v_wormholes s (y, x) = None"
  shows "contribution s g y x dy dx =
           g ! nat ((y + dy) mod int (height s)) ! nat ((x + dx) mod int (width s))"
  using assms(1,2)
  by (simp add: contribution_def neighbor_no_wormholes [OF assms] in_grid_def)

lemma count_neighbors_torus:
  assumes "0 < height s" "0 < width s" "grid_ok (height s) (width s) g"
    and "h_wormholes s (y, x) = None" "v_wormholes s (y, x) = None"
  shows "count_neighbors s g y x = Inr (torus_count (height s) (width s) g y x)"
  using assms
  by (simp add: count_neighbors_eq torus_count_def contribution_no_wormholes)

lemma engine_ok_blinker: "engine_ok blinker"
  by (simp add: engine_ok_def grid_ok_def blinker_def)

text \<open>
  C2. With both wormhole tables empty, the neighbour of every cell \<open>(y, x)\<close> in
  direction \<open>(dy, dx)\<close> is \<open>((y + dy) mod height, (x + dx) mod width)\<close>, and \<open>step\<close>
  returns the grid that one step of the Game of Life on a torus, \<open>torus_step\<close>, gives
  on the same grid.
\<close>

theorem step_without_wormholes:
  assumes ok: "engine_ok s"
    and h: "h_wormholes s = Map.empty" and v: "v_wormholes s = Map.empty"
  shows "(\<forall>y < height s. \<forall>x < width s. \<forall>dy dx.
            get_wormhole_neighbor s (int y) (int x) dy dx =
              Inr ((int y + dy) mod int (height s), (int x + dx) mod int (width s))) \<and>
         step s = Inr (torus_step (height s) (width s) (grid s),
                       s\<lparr>grid := torus_step (height s) (width s) (grid s)\<rparr>)"
proof
  show "\<forall>y < height s. \<forall>x < width s. \<forall>dy dx.
            get_wormhole_neighbor s (int y) (int x) dy dx =
              Inr ((int y + dy) mod int (height s), (int x + dx) mod int (width s))"
    using h v by (auto intro!: neighbor_no_wormholes)
next
  have g: "grid_ok (height s) (width s) (grid s)"
    using ok by (simp add: engine_ok_def)
  have "cell_after s y x (grid s ! y ! x)
          = life_rule (grid s ! y ! x) (torus_count (height s) (width s) (grid s) (int y) (int x))"
    if yx: "y < height s" "x < width s" for y x
  proof -
    have pos: "0 < height s" "0 < width s"
      using yx by simp_all
    have "count_neighbors s (grid s) (int y) (int x)
            = Inr (torus_count (height s) (width s) (grid s) (int y) (int x))"
      using pos g by (rule count_neighbors_torus) (simp_all add: h v)
    then show ?thesis
      using cell_after_rule [OF ok yx] by auto
  qed
  then have "map (\<lambda>y. map (\<lambda>x. cell_after s y x (grid s ! y ! x)) [0..<width s]) [0..<height s]
               = torus_step (height s) (width s) (grid s)"
    by (simp add: torus_step_def)
  then show "step s = Inr (torus_step (height s) (width s) (grid s),
                       s\<lparr>grid := torus_step (height s) (width s) (grid s)\<rparr>)"
    using step_eq [OF ok] by simp
qed

theorem step_without_wormholes_witness:
  "engine_ok blinker \<and> h_wormholes blinker = Map.empty \<and> v_wormholes blinker = Map.empty \<and>
   get_wormhole_neighbor blinker 0 0 (-1) (-1) = Inr (2, 2) \<and>
   step blinker = Inr (torus_step 3 3 (grid blinker),
                       blinker\<lparr>grid := torus_step 3 3 (grid blinker)\<rparr>)"
proof -
  have h: "h_wormholes blinker = Map.empty" and v: "v_wormholes blinker = Map.empty"
    by (simp_all add: blinker_def)
  have dims: "height blinker = 3" "width blinker = 3"
    by (simp_all add: blinker_def)
  note torus = step_without_wormholes [OF engine_ok_blinker h v]
  have "get_wormhole_neighbor blinker 0 0 (-1) (-1) = Inr (2, 2)"
    using torus [THEN conjunct1, rule_format, of 0 0 "-1" "-1"] by (simp add: dims)
  moreover have "step blinker = Inr (torus_step 3 3 (grid blinker),
                       blinker\<lparr>grid := torus_step 3 3 (grid blinker)\<rparr>)"
    using torus [THEN conjunct2] by (simp add: dims)
  ultimately show ?thesis
    using engine_ok_blinker h v by blast
qed

section \<open>Diagonal moves\<close>

lemma portal_fields:
  "height portal = 3" "width portal = 3"
  "h_wormholes portal (0, 0) = Some (0, 2)" "h_wormholes portal (0, 2) = Some (0, 0)"
  "h_wormholes portal (1, 1) = None"
  "v_wormholes portal (0, 0) = Some (2, 0)" "v_wormholes portal (0, 2) = None"
  "v_wormholes portal (1, 1) = None"
  by (simp_all add: portal_def)

text \<open>
  C4. For a diagonal move (\<open>dy\<close> and \<open>dx\<close> both not 0) on a grid with positive
  dimensions exactly one rule gives the result, in the order top, right, bottom, left:
  moving up from a key of the vertical table goes through the vertical wormhole, whatever
  the horizontal table holds (it may be replaced by any table \<open>t\<close>); otherwise moving
  right from a key of the horizontal table goes through the horizontal wormhole; otherwise
  moving down from a key of the vertical table goes through the vertical wormhole;
  otherwise moving left from a key of the horizontal table goes through the horizontal
  wormhole; a cell that is a key of neither table takes the step on the torus.
\<close>

theorem diagonal_precedence:
  assumes "0 < height s" "0 < width s" "dy \<noteq> 0" "dx \<noteq> 0"
  shows
    "(dy < 0 \<and> v_wormholes s (y, x) = Some (vy, vx) \<longrightarrow>
        get_wormhole_neighbor s y x dy dx =
          Inr ((vy - 1) mod int (height s), (vx + dx) mod int (width s)) \<and>
        get_wormhole_neighbor (s\<lparr>h_wormholes := t\<rparr>) y x dy dx =
          Inr ((vy - 1) mod int (height s), (vx + dx) mod int (width s))) \<and>
     (\<not> (dy < 0 \<and> v_wormholes s (y, x) \<noteq> None) \<and> dx > 0 \<and>
      h_wormholes s (y, x) = Some (hy, hx) \<longrightarrow>
        get_wormhole_neighbor s y x dy dx =
          Inr ((hy + dy) mod int (height s), (hx + 1) mod int (width s))) \<and>
     (\<not> (dx > 0 \<and> h_wormholes s (y, x) \<noteq> None) \<and> dy > 0 \<and>
      v_wormholes s (y, x) = Some (vy, vx) \<longrightarrow>
        get_wormhole_neighbor s y x dy dx =
          Inr ((vy + 1) mod int (height s), (vx + dx) mod int (width s))) \<and>
     (v_wormholes s (y, x) = None \<and> dx < 0 \<and> h_wormholes s (y, x) = Some (hy, hx) \<longrightarrow>
        get_wormhole_neighbor s y x dy dx =
          Inr ((hy + dy) mod int (height s), (hx - 1) mod int (width s))) \<and>
     (v_wormholes s (y, x) = None \<and> h_wormholes s (y, x) = None \<longrightarrow>
        get_wormhole_neighbor s y x dy dx =
          Inr ((y + dy) mod int (height s), (x + dx) mod int (width s)))"
  using assms
  by (auto simp: get_wormhole_neighbor_def move_defs py_mod_pos split: option.splits)

theorem diagonal_precedence_witness:
  "get_wormhole_neighbor portal 0 0 (-1) 1 = Inr (1, 1) \<and>
   get_wormhole_neighbor (portal\<lparr>h_wormholes := Map.empty\<rparr>) 0 0 (-1) 1 = Inr (1, 1) \<and>
   get_wormhole_neighbor portal 0 0 1 1 = Inr (1, 0) \<and>
   get_wormhole_neighbor portal 0 0 1 (-1) = Inr (0, 2) \<and>
   get_wormhole_neighbor portal 0 2 1 (-1) = Inr (1, 2) \<and>
   get_wormhole_neighbor portal 1 1 1 1 = Inr (2, 2)"
proof -
  have pos: "0 < height portal" "0 < width portal"
    by (simp_all add: portal_fields)
  have up: "(-1 :: int) \<noteq> 0" and down: "(1 :: int) \<noteq> 0"
    by simp_all
  note top = diagonal_precedence [OF pos up down, where y = 0 and x = 0 and vy = 2 and vx = 0
      and t = Map.empty]
  note right = diagonal_precedence [OF pos down down, where y = 0 and x = 0 and hy = 0 and hx = 2]
  note bottom = diagonal_precedence [OF pos down up, where y = 0 and x = 0 and vy = 2 and vx = 0]
  note left = diagonal_precedence [OF pos down up, where y = 0 and x = 2 and hy = 0 and hx = 0]
  note none = diagonal_precedence [OF pos down down, where y = 1 and x = 1]
  have "get_wormhole_neighbor portal 0 0 (-1) 1 = Inr (1, 1)"
    and "get_wormhole_neighbor (portal\<lparr>h_wormholes := Map.empty\<rparr>) 0 0 (-1) 1 = Inr (1, 1)"
    using top by (simp_all add: portal_fields)
  moreover have "get_wormhole_neighbor portal 0 0 1 1 = Inr (1, 0)"
    using right by (simp add: portal_fields)
  moreover have "get_wormhole_neighbor portal 0 0 1 (-1) = Inr (0, 2)"
    using bottom by (simp add: portal_fields)
  moreover have "get_wormhole_neighbor portal 0 2 1 (-1) = Inr (1, 2)"
    using left by (simp add: portal_fields)
  moreover have "get_wormhole_neighbor portal 1 1 1 1 = Inr (2, 2)"
    using none by (simp add: portal_fields)
  ultimately show ?thesis by blast
qed

section \<open>Building the wormhole tables\<close>

lemma for_each_guarded:
  "(\<And>i st. i \<in> set xs \<Longrightarrow> body i st = (if ok i then Inr (f i st) else Inl e)) \<Longrightarrow>
     for_each xs body st = (if list_all ok xs then Inr (fold f xs st) else Inl e)"
  by (induction xs arbitrary: st) simp_all

lemma fold_product:
  "fold f (List.product xs ys) = fold (\<lambda>x. fold (\<lambda>y. f (x, y)) ys) xs"
  by (induction xs) (simp_all add: fold_map comp_def)

lemma scan_pixel_eq:
  "scan_pixel tm y x acc =
     (if y < length tm \<and> x < length (tm ! y) then Inr (note_pixel tm (y, x) acc)
      else Inl IndexError)"
  by (simp add: scan_pixel_def grid_get_def note_pixel_def color_at_def coord_of_def)

lemma scan_eq:
  "for_each [0..<h] (\<lambda>y. for_each [0..<w] (\<lambda>x. scan_pixel tm y x)) acc =
     (if tunnel_ok h w tm then Inr (fold (note_pixel tm) (List.product [0..<h] [0..<w]) acc)
      else Inl IndexError)"
proof -
  have row: "for_each [0..<w] (\<lambda>x. scan_pixel tm y x) st =
               (if list_all (\<lambda>x. y < length tm \<and> x < length (tm ! y)) [0..<w]
                then Inr (fold (\<lambda>x. note_pixel tm (y, x)) [0..<w] st) else Inl IndexError)"
    for y st
    by (rule for_each_guarded) (rule scan_pixel_eq)
  have "for_each [0..<h] (\<lambda>y. for_each [0..<w] (\<lambda>x. scan_pixel tm y x)) acc =
          (if list_all (\<lambda>y. list_all (\<lambda>x. y < length tm \<and> x < length (tm ! y)) [0..<w])
                [0..<h]
           then Inr (fold (\<lambda>y. fold (\<lambda>x. note_pixel tm (y, x)) [0..<w]) [0..<h] acc)
           else Inl IndexError)"
    by (rule for_each_guarded) (rule row)
  then show ?thesis
    by (simp only: fold_product tunnel_ok_def)
qed

lemma build_eq:
  "build_wormhole_connections h w tm =
     (if tunnel_ok h w tm
      then Inr (fold connect (fold (note_pixel tm) (List.product [0..<h] [0..<w]) []) Map.empty)
      else Inl IndexError)"
  by (simp add: build_wormhole_connections_def scan_eq)

lemma append_position_keys:
  "fst ` set (append_position c p acc) = insert c (fst ` set acc)"
proof (induction acc)
  case Nil
  show ?case by simp
next
  case (Cons g acc)
  obtain k ps where g: "g = (k, ps)" by (cases g)
  show ?case
    using Cons.IH by (cases "k = c") (auto simp: g)
qed

lemma append_position_distinct_keys:
  "distinct (map fst acc) \<Longrightarrow> distinct (map fst (append_position c p acc))"
proof (induction acc)
  case Nil
  show ?case by simp
next
  case (Cons g acc)
  obtain k ps where g: "g = (k, ps)" by (cases g)
  show ?case
  proof (cases "k = c")
    case True
    with Cons.prems show ?thesis by (simp add: g)
  next
    case False
    have "k \<notin> fst ` set (append_position c p acc)"
      using Cons.prems False by (simp add: append_position_keys g)
    with Cons False show ?thesis by (simp add: g)
  qed
qed

lemma append_position_positions:
  "set (concat (map snd (append_position c p acc))) = insert p (set (concat (map snd acc)))"
proof (induction acc)
  case Nil
  show ?case by simp
next
  case (Cons g acc)
  obtain k ps where g: "g = (k, ps)" by (cases g)
  show ?case
  proof (cases "k = c")
    case True
    then show ?thesis by (simp add: g)
  next
    case False
    have "set (concat (map snd (append_position c p (g # acc)))) =
            set ps \<union> set (concat (map snd (append_position c p acc)))"
      using False by (simp add: g)
    also have "\<dots> = set ps \<union> insert p (set (concat (map snd acc)))"
      by (simp only: Cons.IH)
    also have "\<dots> = insert p (set (concat (map snd (g # acc))))"
      by (simp add: g)
    finally show ?thesis .
  qed
qed

lemma append_position_distinct:
  "distinct (concat (map snd acc)) \<Longrightarrow> p \<notin> set (concat (map snd acc)) \<Longrightarrow>
     distinct (concat (map snd (append_position c p acc)))"
proof (induction acc)
  case Nil
  show ?case by simp
next
  case (Cons g acc)
  obtain k ps where g: "g = (k, ps)" by (cases g)
  have parts: "distinct ps" "distinct (concat (map snd acc))"
    "set ps \<inter> set (concat (map snd acc)) = {}"
    "p \<notin> set ps" "p \<notin> set (concat (map snd acc))"
    using Cons.prems by (simp_all add: g)
  show ?case
  proof (cases "k = c")
    case True
    have "concat (map snd (append_position c p (g # acc))) =
            ps @ [p] @ concat (map snd acc)"
      using True by (simp add: g)
    then show ?thesis
      using parts by auto
  next
    case False
    have eq: "concat (map snd (append_position c p (g # acc))) =
            ps @ concat (map snd (append_position c p acc))"
      using False by (simp add: g)
    have "distinct (concat (map snd (append_position c p acc)))"
      using parts by (intro Cons.IH)
    moreover have "set ps \<inter> set (concat (map snd (append_position c p acc))) = {}"
      using parts unfolding append_position_positions by blast
    ultimately show ?thesis
      unfolding eq using parts(1) by simp
  qed
qed

lemma append_position_map_of:
  "map_of (append_position c p acc) =
     (map_of acc)(c \<mapsto> (case map_of acc c of None \<Rightarrow> [p] | Some l \<Rightarrow> l @ [p]))"
proof (induction acc)
  case Nil
  show ?case by simp
next
  case (Cons g acc)
  obtain k ps where g: "g = (k, ps)" by (cases g)
  show ?case
    using Cons.IH by (cases "k = c") (auto simp: g fun_eq_iff)
qed

lemma inj_coord_of: "inj coord_of"
  by (auto simp: inj_on_def coord_of_def prod_eq_iff)

lemma scan_distinct_keys:
  "distinct (map fst acc) \<Longrightarrow> distinct (map fst (fold (note_pixel tm) ps acc))"
  by (induction ps arbitrary: acc) (simp_all add: note_pixel_def append_position_distinct_keys)

lemma note_pixel_positions:
  "set (concat (map snd (note_pixel tm p acc))) \<subseteq>
     insert (coord_of p) (set (concat (map snd acc)))"
proof (cases "color_at tm p = (0, 0, 0)")
  case True
  then have "note_pixel tm p acc = acc"
    by (simp add: note_pixel_def)
  then show ?thesis
    by (simp only: subset_insertI)
next
  case False
  then have "note_pixel tm p acc = append_position (color_at tm p) (coord_of p) acc"
    by (simp add: note_pixel_def)
  then show ?thesis
    by (simp only: append_position_positions subset_refl)
qed

lemma note_pixel_distinct:
  assumes "distinct (concat (map snd acc))" "coord_of p \<notin> set (concat (map snd acc))"
  shows "distinct (concat (map snd (note_pixel tm p acc)))"
proof (cases "color_at tm p = (0, 0, 0)")
  case True
  then have "note_pixel tm p acc = acc"
    by (simp add: note_pixel_def)
  then show ?thesis
    using assms(1) by (simp only:)
next
  case False
  then have "note_pixel tm p acc = append_position (color_at tm p) (coord_of p) acc"
    by (simp add: note_pixel_def)
  then show ?thesis
    using append_position_distinct [OF assms] by (simp only:)
qed

lemma scan_positions:
  "set (concat (map snd (fold (note_pixel tm) ps acc))) \<subseteq>
     set (concat (map snd acc)) \<union> coord_of ` set ps"
proof (induction ps arbitrary: acc)
  case Nil
  show ?case by simp
next
  case (Cons p ps)
  have "set (concat (map snd (fold (note_pixel tm) ps (note_pixel tm p acc)))) \<subseteq>
          set (concat (map snd (note_pixel tm p acc))) \<union> coord_of ` set ps"
    by (rule Cons.IH)
  also have "\<dots> \<subseteq> insert (coord_of p) (set (concat (map snd acc))) \<union> coord_of ` set ps"
    using note_pixel_positions [of tm p acc] by blast
  also have "\<dots> = set (concat (map snd acc)) \<union> coord_of ` set (p # ps)"
    by auto
  finally show ?case by simp
qed

lemma disjoint_from_insert:
  "C \<inter> A = {} \<Longrightarrow> B \<subseteq> insert x A \<Longrightarrow> x \<notin> C \<Longrightarrow> C \<inter> B = {}"
  by blast

lemma disjoint_from_subset:
  "C \<subseteq> D \<Longrightarrow> D \<inter> A = {} \<Longrightarrow> C \<inter> A = {}"
  by blast

lemma scan_distinct:
  "distinct ps \<Longrightarrow> distinct (concat (map snd acc)) \<Longrightarrow>
     coord_of ` set ps \<inter> set (concat (map snd acc)) = {} \<Longrightarrow>
     distinct (concat (map snd (fold (note_pixel tm) ps acc)))"
proof (induction ps arbitrary: acc)
  case Nil
  then show ?case by simp
next
  case (Cons p ps)
  have p: "coord_of p \<notin> set (concat (map snd acc))"
    using Cons.prems(3) by auto
  have fresh: "coord_of p \<notin> coord_of ` set ps"
    using Cons.prems(1) by (simp add: inj_image_mem_iff [OF inj_coord_of])
  have d: "distinct (concat (map snd (note_pixel tm p acc)))"
    using Cons.prems(2) p by (rule note_pixel_distinct)
  have "coord_of ` set ps \<subseteq> coord_of ` set (p # ps)"
    by (rule image_mono) (rule set_subset_Cons)
  then have "coord_of ` set ps \<inter> set (concat (map snd acc)) = {}"
    using Cons.prems(3) by (rule disjoint_from_subset)
  then have disj: "coord_of ` set ps \<inter> set (concat (map snd (note_pixel tm p acc))) = {}"
    using note_pixel_positions [of tm p acc] fresh by (rule disjoint_from_insert)
  have dps: "distinct ps"
    using Cons.prems(1) by simp
  have "distinct (concat (map snd (fold (note_pixel tm) ps (note_pixel tm p acc))))"
    using dps d disj by (rule Cons.IH)
  then show ?case by simp
qed

lemma color_group_Cons:
  "color_group tm (p # ps) c =
     (if color_at tm p = c then coord_of p # color_group tm ps c else color_group tm ps c)"
  by (simp add: color_group_def)

lemma note_pixel_map_of:
  "map_of (note_pixel tm p acc) c =
     (if color_at tm p = c \<and> c \<noteq> (0, 0, 0)
      then Some ((case map_of acc c of None \<Rightarrow> [] | Some l \<Rightarrow> l) @ [coord_of p])
      else map_of acc c)"
  by (simp add: note_pixel_def append_position_map_of split: option.splits)

lemma scan_map_of:
  "map_of (fold (note_pixel tm) ps acc) c =
     (if c = (0, 0, 0) \<or> color_group tm ps c = [] then map_of acc c
      else Some ((case map_of acc c of None \<Rightarrow> [] | Some l \<Rightarrow> l) @ color_group tm ps c))"
proof (induction ps arbitrary: acc)
  case Nil
  show ?case by (simp add: color_group_def)
next
  case (Cons p ps)
  have "map_of (fold (note_pixel tm) (p # ps) acc) c =
          map_of (fold (note_pixel tm) ps (note_pixel tm p acc)) c"
    by simp
  also have "\<dots> =
     (if c = (0, 0, 0) \<or> color_group tm ps c = [] then map_of (note_pixel tm p acc) c
      else Some ((case map_of (note_pixel tm p acc) c of None \<Rightarrow> [] | Some l \<Rightarrow> l)
                 @ color_group tm ps c))"
    by (rule Cons.IH)
  also have "\<dots> =
     (if c = (0, 0, 0) \<or> color_group tm (p # ps) c = [] then map_of acc c
      else Some ((case map_of acc c of None \<Rightarrow> [] | Some l \<Rightarrow> l) @ color_group tm (p # ps) c))"
    by (simp add: note_pixel_map_of color_group_Cons split: option.splits)
  finally show ?case .
qed

lemma connect_lookup:
  assumes "dom m \<inter> set l = {}"
  shows "connect (c, l) m k = Some v \<longleftrightarrow> m k = Some v \<or> l = [k, v] \<or> l = [v, k]"
proof (cases "\<exists>a b. l = [a, b]")
  case True
  then obtain a b where l: "l = [a, b]" by blast
  have "m a = None" "m b = None"
    using assms by (auto simp: l)
  then show ?thesis
    by (auto simp: l)
next
  case False
  then have eq: "connect (c, l) m = m"
    by (auto split: list.splits)
  have "l \<noteq> [k, v]" "l \<noteq> [v, k]"
    using False by blast+
  then show ?thesis
    unfolding eq by simp
qed

lemma connect_dom: "dom (connect (c, l) m) \<subseteq> dom m \<union> set l"
  by (auto split: list.splits if_splits)

lemma fold_connect_lookup:
  "distinct (concat (map snd gs)) \<Longrightarrow> dom m \<inter> set (concat (map snd gs)) = {} \<Longrightarrow>
     fold connect gs m k = Some v \<longleftrightarrow>
       m k = Some v \<or> (\<exists>g \<in> set gs. snd g = [k, v] \<or> snd g = [v, k])"
proof (induction gs arbitrary: m)
  case Nil
  show ?case by simp
next
  case (Cons g gs)
  obtain c l where g: "g = (c, l)" by (cases g)
  have d: "distinct (concat (map snd gs))"
    and l_rest: "set l \<inter> set (concat (map snd gs)) = {}"
    using Cons.prems(1) by (simp_all add: g)
  have m_l: "dom m \<inter> set l = {}" and m_rest: "dom m \<inter> set (concat (map snd gs)) = {}"
    using Cons.prems(2) by (auto simp: g)
  have "dom (connect (c, l) m) \<inter> set (concat (map snd gs)) = {}"
    using connect_dom [of c l m] l_rest m_rest by blast
  then have "fold connect gs (connect (c, l) m) k = Some v \<longleftrightarrow>
       connect (c, l) m k = Some v \<or> (\<exists>g \<in> set gs. snd g = [k, v] \<or> snd g = [v, k])"
    using d by (intro Cons.IH)
  then show ?case
    by (simp add: g connect_lookup [OF m_l] del: connect.simps)
qed

lemma scanned_groups:
  "(c, l) \<in> set (fold (note_pixel tm) ps []) \<longleftrightarrow>
     c \<noteq> (0, 0, 0) \<and> l \<noteq> [] \<and> l = color_group tm ps c"
proof -
  have "distinct (map fst (fold (note_pixel tm) ps []))"
    by (rule scan_distinct_keys) simp
  then have "(c, l) \<in> set (fold (note_pixel tm) ps []) \<longleftrightarrow>
               map_of (fold (note_pixel tm) ps []) c = Some l"
    by simp
  then show ?thesis
    unfolding scan_map_of by auto
qed

lemma pair_of_group:
  "(\<exists>c l. (P c \<and> l \<noteq> [] \<and> l = G c) \<and> (l = [k, v] \<or> l = [v, k])) \<longleftrightarrow>
     (\<exists>c. P c \<and> (G c = [k, v] \<or> G c = [v, k]))"
  by auto

lemma table_lookup:
  assumes "distinct ps"
  shows "fold connect (fold (note_pixel tm) ps []) Map.empty k = Some v \<longleftrightarrow>
           (\<exists>c. c \<noteq> (0, 0, 0) \<and> (color_group tm ps c = [k, v] \<or> color_group tm ps c = [v, k]))"
proof -
  let ?gs = "fold (note_pixel tm) ps []"
  have "distinct (concat (map snd ?gs))"
    using assms by (rule scan_distinct) simp_all
  then have "fold connect ?gs Map.empty k = Some v \<longleftrightarrow>
       Map.empty k = Some v \<or> (\<exists>g \<in> set ?gs. snd g = [k, v] \<or> snd g = [v, k])"
    by (rule fold_connect_lookup) simp
  also have "\<dots> \<longleftrightarrow> (\<exists>c l. (c, l) \<in> set ?gs \<and> (l = [k, v] \<or> l = [v, k]))"
    by (simp add: Bex_def)
  also have "\<dots> \<longleftrightarrow>
       (\<exists>c. c \<noteq> (0, 0, 0) \<and> (color_group tm ps c = [k, v] \<or> color_group tm ps c = [v, k]))"
    unfolding scanned_groups by (rule pair_of_group)
  finally show ?thesis .
qed

lemma color_group_scanned:
  "color_group tm (List.product [0..<h] [0..<w]) c = map coord_of (positions_of_color h w tm c)"
  by (simp add: color_group_def positions_of_color_def)

lemma build_returns:
  "tunnel_ok h w tm \<Longrightarrow> \<exists>m. build_wormhole_connections h w tm = Inr m"
  by (simp add: build_eq)

lemma build_lookup:
  assumes "build_wormhole_connections h w tm = Inr m"
  shows "m k = Some v \<longleftrightarrow>
           (\<exists>c. c \<noteq> (0, 0, 0) \<and>
                (map coord_of (positions_of_color h w tm c) = [k, v] \<or>
                 map coord_of (positions_of_color h w tm c) = [v, k]))"
proof -
  have m: "m = fold connect (fold (note_pixel tm) (List.product [0..<h] [0..<w]) []) Map.empty"
    using assms by (simp add: build_eq split: if_splits)
  have "distinct (List.product [0..<h] [0..<w])"
    by (simp add: distinct_product)
  then show ?thesis
    unfolding m color_group_scanned [symmetric] by (rule table_lookup)
qed

lemma pair_swap:
  "(\<exists>c. P c \<and> (G c = [k, v] \<or> G c = [v, k])) \<Longrightarrow>
     (\<exists>c. P c \<and> (G c = [v, k] \<or> G c = [k, v]))"
  by blast

lemma pair_facts:
  "xs = [k, v] \<or> xs = [v, k] \<Longrightarrow> length xs = 2 \<and> k \<in> set xs \<and> v \<in> set xs"
  by auto

lemma build_symmetric:
  assumes "build_wormhole_connections h w tm = Inr m" "m k = Some v"
  shows "m v = Some k"
  using assms(2) unfolding build_lookup [OF assms(1)] by (rule pair_swap)

lemma position_in_group:
  assumes "p \<in> set (positions_of_color h w tm c)"
  shows "fst p < h \<and> snd p < w \<and> color_at tm p = c"
proof -
  obtain y x where p: "p = (y, x)" by (cases p)
  show ?thesis
    using assms by (simp add: positions_of_color_def p)
qed

lemma build_key:
  assumes "build_wormhole_connections h w tm = Inr m" "m k = Some v"
  shows "\<exists>p. k = coord_of p \<and> fst p < h \<and> snd p < w \<and> color_at tm p \<noteq> (0, 0, 0) \<and>
             length (positions_of_color h w tm (color_at tm p)) = 2"
proof -
  have "\<exists>c. c \<noteq> (0, 0, 0) \<and>
          (map coord_of (positions_of_color h w tm c) = [k, v] \<or>
           map coord_of (positions_of_color h w tm c) = [v, k])"
    using assms(2) unfolding build_lookup [OF assms(1)] .
  then obtain c where cl: "c \<noteq> (0, 0, 0) \<and>
          (map coord_of (positions_of_color h w tm c) = [k, v] \<or>
           map coord_of (positions_of_color h w tm c) = [v, k])" ..
  have c: "c \<noteq> (0, 0, 0)"
    using cl by (rule conjunct1)
  have l: "map coord_of (positions_of_color h w tm c) = [k, v] \<or>
            map coord_of (positions_of_color h w tm c) = [v, k]"
    using cl by (rule conjunct2)
  note facts = pair_facts [OF l]
  have len: "length (positions_of_color h w tm c) = 2"
    using facts by simp
  have "k \<in> coord_of ` set (positions_of_color h w tm c)"
    using facts by simp
  then obtain p where p: "k = coord_of p" "p \<in> set (positions_of_color h w tm c)"
    by (rule imageE)
  have at: "fst p < h \<and> snd p < w \<and> color_at tm p = c"
    using p(2) by (rule position_in_group)
  show ?thesis
  proof (intro exI conjI)
    show "k = coord_of p" by (rule p(1))
    show "fst p < h" "snd p < w" using at by simp_all
    show "color_at tm p \<noteq> (0, 0, 0)" using at c by simp
    show "length (positions_of_color h w tm (color_at tm p)) = 2" using at len by simp
  qed
qed

lemma build_in_grid:
  assumes "build_wormhole_connections h w tm = Inr m"
  shows "table_in_grid h w m"
proof -
  have key: "in_grid h w k" if kv: "m k = Some v" for k v
  proof -
    obtain p where "k = coord_of p" "fst p < h" "snd p < w"
      using build_key [OF assms kv] by blast
    then show ?thesis by (simp add: in_grid_def coord_of_def)
  qed
  have "in_grid h w k \<and> in_grid h w v" if kv: "m k = Some v" for k v
    using key [OF kv] key [OF build_symmetric [OF assms kv]] by simp
  then show ?thesis
    unfolding table_in_grid_def by blast
qed

lemma tunnel_ok_portal_h: "tunnel_ok 3 3 portal_h_tunnel"
  by (simp add: tunnel_ok_def portal_h_tunnel_def upt_rec)

lemma build_portal_h: "build_wormhole_connections 3 3 portal_h_tunnel = Inr (h_wormholes portal)"
  by (simp add: build_wormhole_connections_def portal_h_tunnel_def portal_def scan_pixel_def
      grid_get_def upt_rec)

lemma build_portal_v: "build_wormhole_connections 3 3 portal_v_tunnel = Inr (v_wormholes portal)"
  by (simp add: build_wormhole_connections_def portal_v_tunnel_def portal_def scan_pixel_def
      grid_get_def upt_rec)

text \<open>
  C5. The builder returns a table for every tunnel map in which the positions it reads
  exist, and every table it returns is symmetric: a key \<open>k\<close> mapped to \<open>v\<close> makes \<open>v\<close>
  a key mapped to \<open>k\<close>.
\<close>

theorem built_table_symmetric:
  "(tunnel_ok h w tunnel_map \<longrightarrow> (\<exists>m. build_wormhole_connections h w tunnel_map = Inr m)) \<and>
   (build_wormhole_connections h w tunnel_map = Inr m \<and> m k = Some v \<longrightarrow> m v = Some k)"
proof (intro conjI impI)
  assume "tunnel_ok h w tunnel_map"
  then show "\<exists>m. build_wormhole_connections h w tunnel_map = Inr m"
    by (rule build_returns)
next
  assume a: "build_wormhole_connections h w tunnel_map = Inr m \<and> m k = Some v"
  show "m v = Some k"
    using a [THEN conjunct1] a [THEN conjunct2] by (rule build_symmetric)
qed

theorem built_table_symmetric_witness:
  "tunnel_ok 3 3 portal_h_tunnel \<and>
   build_wormhole_connections 3 3 portal_h_tunnel = Inr (h_wormholes portal) \<and>
   h_wormholes portal (0, 0) = Some (0, 2) \<and>
   h_wormholes portal (0, 2) = Some (0, 0)"
proof -
  have key: "h_wormholes portal (0, 0) = Some (0, 2)"
    by (simp add: portal_fields)
  have "h_wormholes portal (0, 2) = Some (0, 0)"
    using built_table_symmetric [of 3 3 portal_h_tunnel "h_wormholes portal" "(0, 0)" "(0, 2)"]
      build_portal_h key by blast
  then show ?thesis
    using tunnel_ok_portal_h build_portal_h key by blast
qed

lemma build_no_key:
  assumes b: "build_wormhole_connections h w tm = Inr m"
    and len: "length (positions_of_color h w tm (tm ! y ! x)) \<noteq> 2"
  shows "m (int y, int x) = None"
proof (rule ccontr)
  assume "m (int y, int x) \<noteq> None"
  then obtain v where "m (int y, int x) = Some v" by blast
  then obtain p where p: "(int y, int x) = coord_of p"
    "length (positions_of_color h w tm (color_at tm p)) = 2"
    using build_key [OF b] by blast
  have "p = (y, x)"
    using p(1) by (simp add: coord_of_def prod_eq_iff)
  then show False
    using p(2) len by (simp add: color_at_def)
qed

lemma build_mixed: "build_wormhole_connections 2 3 mixed_tunnel = Inr mixed_table"
  by (simp add: build_wormhole_connections_def mixed_tunnel_def mixed_table_def scan_pixel_def
      grid_get_def upt_rec)

lemma tunnel_ok_mixed: "tunnel_ok 2 3 mixed_tunnel"
  by (simp add: tunnel_ok_def mixed_tunnel_def upt_rec)

lemma mixed_groups:
  "length (positions_of_color 2 3 mixed_tunnel (mixed_tunnel ! 0 ! 0)) = 1"
  "length (positions_of_color 2 3 mixed_tunnel (mixed_tunnel ! 0 ! 1)) = 3"
  by code_simp+

text \<open>
  C6. The builder raises nothing on a tunnel map in which the positions it reads exist,
  whatever the sizes of its colour groups. In the table it returns, no position whose
  colour marks a number of positions other than two (one, or three and more) is a key,
  and every key is a position of a colour other than black that marks exactly two
  positions.
\<close>

theorem odd_groups_make_no_entry:
  "(tunnel_ok h w tunnel_map \<longrightarrow> (\<exists>m. build_wormhole_connections h w tunnel_map = Inr m)) \<and>
   (build_wormhole_connections h w tunnel_map = Inr m \<longrightarrow>
      (\<forall>y < h. \<forall>x < w.
         length (positions_of_color h w tunnel_map (tunnel_map ! y ! x)) \<noteq> 2 \<longrightarrow>
           m (int y, int x) = None) \<and>
      (\<forall>k v. m k = Some v \<longrightarrow>
         (\<exists>y < h. \<exists>x < w. k = (int y, int x) \<and> tunnel_map ! y ! x \<noteq> (0, 0, 0) \<and>
            length (positions_of_color h w tunnel_map (tunnel_map ! y ! x)) = 2)))"
proof (intro conjI impI allI)
  assume "tunnel_ok h w tunnel_map"
  then show "\<exists>m. build_wormhole_connections h w tunnel_map = Inr m"
    by (rule build_returns)
next
  fix y x
  assume "build_wormhole_connections h w tunnel_map = Inr m"
    and "length (positions_of_color h w tunnel_map (tunnel_map ! y ! x)) \<noteq> 2"
  then show "m (int y, int x) = None"
    by (rule build_no_key)
next
  fix k v
  assume b: "build_wormhole_connections h w tunnel_map = Inr m" and kv: "m k = Some v"
  obtain p where p: "k = coord_of p" "fst p < h" "snd p < w"
    "color_at tunnel_map p \<noteq> (0, 0, 0)"
    "length (positions_of_color h w tunnel_map (color_at tunnel_map p)) = 2"
    using build_key [OF b kv] by blast
  show "\<exists>y < h. \<exists>x < w. k = (int y, int x) \<and> tunnel_map ! y ! x \<noteq> (0, 0, 0) \<and>
            length (positions_of_color h w tunnel_map (tunnel_map ! y ! x)) = 2"
    using p by (intro exI [of _ "fst p"] exI [of _ "snd p"]) (simp add: coord_of_def color_at_def)
qed

theorem odd_groups_make_no_entry_witness:
  "tunnel_ok 2 3 mixed_tunnel \<and>
   build_wormhole_connections 2 3 mixed_tunnel = Inr mixed_table \<and>
   length (positions_of_color 2 3 mixed_tunnel (mixed_tunnel ! 0 ! 0)) = 1 \<and>
   mixed_table (int 0, int 0) = None \<and>
   length (positions_of_color 2 3 mixed_tunnel (mixed_tunnel ! 0 ! 1)) = 3 \<and>
   mixed_table (int 0, int 1) = None \<and>
   mixed_table (1, 1) = Some (1, 2)"
proof -
  note no_key = odd_groups_make_no_entry [of 2 3 mixed_tunnel mixed_table, THEN conjunct2,
      rule_format, OF build_mixed, THEN conjunct1, rule_format]
  have "mixed_table (int 0, int 0) = None"
    using no_key [of 0 0] mixed_groups(1) by simp
  moreover have "mixed_table (int 0, int 1) = None"
    using no_key [of 0 1] mixed_groups(2) by simp
  moreover have "mixed_table (1, 1) = Some (1, 2)"
    by (simp add: mixed_table_def)
  ultimately show ?thesis
    using tunnel_ok_mixed build_mixed mixed_groups by blast
qed

section \<open>Neighbours stay inside the grid\<close>

lemma neighbor_in_grid:
  assumes "0 < height s" "0 < width s"
    and "table_in_grid (height s) (width s) (h_wormholes s)"
    and "table_in_grid (height s) (width s) (v_wormholes s)"
  shows "\<exists>c. get_wormhole_neighbor s y x dy dx = Inr c \<and> in_grid (height s) (width s) c"
  using assms
  by (auto simp: get_wormhole_neighbor_def move_defs py_mod_pos table_in_grid_def in_grid_def
      split: option.splits)

lemma engine_ok_portal: "engine_ok portal"
  by (simp add: engine_ok_def grid_ok_def portal_def)

text \<open>
  C7. On a well-formed engine with positive height and width whose two tables are what
  the builder returns for tunnel maps of these dimensions, every neighbour that
  \<open>_get_wormhole_neighbor\<close> resolves, from any position and in any direction, has a
  row in \<open>[0, height)\<close> and a column in \<open>[0, width)\<close>, so the bounds check of
  \<open>_count_neighbors\<close> rejects none; and the count is between 0 and 8.
\<close>

theorem neighbors_stay_in_grid:
  assumes "engine_ok s" "0 < height s" "0 < width s"
    and "build_wormhole_connections (height s) (width s) h_tunnel = Inr (h_wormholes s)"
    and "build_wormhole_connections (height s) (width s) v_tunnel = Inr (v_wormholes s)"
  shows "(\<exists>ny nx. get_wormhole_neighbor s y x dy dx = Inr (ny, nx) \<and>
            0 \<le> ny \<and> ny < int (height s) \<and> 0 \<le> nx \<and> nx < int (width s)) \<and>
         (\<exists>n. count_neighbors s (grid s) y x = Inr n \<and> 0 \<le> n \<and> n \<le> 8)"
proof
  have "table_in_grid (height s) (width s) (h_wormholes s)"
    using assms(4) by (rule build_in_grid)
  moreover have "table_in_grid (height s) (width s) (v_wormholes s)"
    using assms(5) by (rule build_in_grid)
  ultimately obtain c where c: "get_wormhole_neighbor s y x dy dx = Inr c"
    "in_grid (height s) (width s) c"
    using neighbor_in_grid [OF assms(2,3)] by blast
  obtain ny nx where "c = (ny, nx)" by (cases c)
  with c show "\<exists>ny nx. get_wormhole_neighbor s y x dy dx = Inr (ny, nx) \<and>
            0 \<le> ny \<and> ny < int (height s) \<and> 0 \<le> nx \<and> nx < int (width s)"
    by (simp add: in_grid_def)
next
  have "grid_ok (height s) (width s) (grid s)"
    using assms(1) by (simp add: engine_ok_def)
  then show "\<exists>n. count_neighbors s (grid s) y x = Inr n \<and> 0 \<le> n \<and> n \<le> 8"
    using count_neighbors_le [OF assms(2,3)] by simp
qed

theorem neighbors_stay_in_grid_witness:
  "engine_ok portal \<and> 0 < height portal \<and> 0 < width portal \<and>
   build_wormhole_connections (height portal) (width portal) portal_h_tunnel
     = Inr (h_wormholes portal) \<and>
   build_wormhole_connections (height portal) (width portal) portal_v_tunnel
     = Inr (v_wormholes portal) \<and>
   (\<exists>ny nx. get_wormhole_neighbor portal 0 0 0 1 = Inr (ny, nx) \<and>
            0 \<le> ny \<and> ny < int (height portal) \<and> 0 \<le> nx \<and> nx < int (width portal)) \<and>
   (\<exists>n. count_neighbors portal (grid portal) 0 0 = Inr n \<and> 0 \<le> n \<and> n \<le> 8)"
proof -
  have pos: "0 < height portal" "0 < width portal"
    by (simp_all add: portal_fields)
  have h: "build_wormhole_connections (height portal) (width portal) portal_h_tunnel
             = Inr (h_wormholes portal)"
    using build_portal_h by (simp add: portal_fields)
  have v: "build_wormhole_connections (height portal) (width portal) portal_v_tunnel
             = Inr (v_wormholes portal)"
    using build_portal_v by (simp add: portal_fields)
  show ?thesis
    using engine_ok_portal pos h v
      neighbors_stay_in_grid [OF engine_ok_portal pos h v, of 0 0 0 1]
    by (intro conjI) simp_all
qed

section \<open>Straight moves through a wormhole\<close>

lemma mod_step_differs:
  fixes a :: int
  assumes "2 \<le> n" "d = 1 \<or> d = -1"
  shows "(a + d) mod int n \<noteq> a"
proof
  assume eq: "(a + d) mod int n = a"
  have n: "0 < int n" using assms(1) by simp
  have "0 \<le> a" "a < int n"
    using eq pos_mod_sign [OF n, of "a + d"] pos_mod_bound [OF n, of "a + d"] by simp_all
  then have "a mod int n = a" by simp
  then have "(a + d) mod int n = a mod int n" using eq by simp
  then have "int n dvd (a + d - a)"
    by (simp add: mod_eq_dvd_iff)
  then have "int n dvd d" by simp
  then have "int n dvd 1" using assms(2) by auto
  then show False using assms(1) by simp
qed

lemma table_value_in_grid:
  assumes t: "table_in_grid h w m" and kv: "m k = Some (ny, nx)"
  shows "0 \<le> ny \<and> ny < int h \<and> 0 \<le> nx \<and> nx < int w"
proof -
  have "in_grid h w (ny, nx)"
    using t [unfolded table_in_grid_def, rule_format, OF kv] by (rule conjunct2)
  then show ?thesis
    by (simp add: in_grid_def)
qed

lemma build_column: "build_wormhole_connections 2 1 column_tunnel = Inr (h_wormholes column)"
  by (simp add: build_wormhole_connections_def column_tunnel_def column_def scan_pixel_def
      grid_get_def upt_rec)

lemma build_strip: "build_wormhole_connections 1 2 strip_tunnel = Inr (v_wormholes strip)"
  by (simp add: build_wormhole_connections_def strip_tunnel_def strip_def scan_pixel_def
      grid_get_def upt_rec)

text \<open>
  C3, as the code has it. On a grid of positive width, a straight horizontal move
  (\<open>dy = 0\<close>, \<open>dx\<close> 1 or -1) from a key \<open>(y, x)\<close> of the horizontal table, paired with
  \<open>(ny, nx)\<close>, resolves to \<open>(ny, (nx + dx) mod width)\<close>: the row of the paired cell and
  the column one step past it. That is another cell than the paired one when the grid is
  at least two columns wide. On a grid one column wide, with a table whose coordinates
  all lie inside the grid (\<open>table_in_grid\<close>, which \<open>build_in_grid\<close> shows of every table
  the builder returns), the column wraps back and the move resolves to the paired cell
  itself. The same holds for a straight vertical move, the vertical table and the height
  of the grid. (A table made by the builder has keys only when both dimensions are
  positive.)
\<close>

theorem straight_move_through_wormhole:
  "(0 < width s \<and> h_wormholes s (y, x) = Some (ny, nx) \<and> (dx = 1 \<or> dx = -1) \<longrightarrow>
      get_wormhole_neighbor s y x 0 dx = Inr (ny, (nx + dx) mod int (width s)) \<and>
      (2 \<le> width s \<longrightarrow> (ny, (nx + dx) mod int (width s)) \<noteq> (ny, nx)) \<and>
      (width s = 1 \<and> table_in_grid (height s) (width s) (h_wormholes s) \<longrightarrow>
         get_wormhole_neighbor s y x 0 dx = Inr (ny, nx))) \<and>
   (0 < height s \<and> v_wormholes s (y, x) = Some (ny, nx) \<and> (dy = 1 \<or> dy = -1) \<longrightarrow>
      get_wormhole_neighbor s y x dy 0 = Inr ((ny + dy) mod int (height s), nx) \<and>
      (2 \<le> height s \<longrightarrow> ((ny + dy) mod int (height s), nx) \<noteq> (ny, nx)) \<and>
      (height s = 1 \<and> table_in_grid (height s) (width s) (v_wormholes s) \<longrightarrow>
         get_wormhole_neighbor s y x dy 0 = Inr (ny, nx)))"
proof (intro conjI impI)
  assume a: "0 < width s \<and> h_wormholes s (y, x) = Some (ny, nx) \<and> (dx = 1 \<or> dx = -1)"
  then show res: "get_wormhole_neighbor s y x 0 dx = Inr (ny, (nx + dx) mod int (width s))"
    by (auto simp: get_wormhole_neighbor_def horizontal_move_def or_else_def py_mod_pos)
  {
    assume "2 \<le> width s"
    then show "(ny, (nx + dx) mod int (width s)) \<noteq> (ny, nx)"
      using a mod_step_differs [of "width s" dx nx] by simp
  }
  {
    assume one: "width s = 1 \<and> table_in_grid (height s) (width s) (h_wormholes s)"
    have "0 \<le> nx \<and> nx < int (width s)"
      using table_value_in_grid [OF one [THEN conjunct2] a [THEN conjunct2, THEN conjunct1]]
      by simp
    then have "nx = 0"
      using one by simp
    then show "get_wormhole_neighbor s y x 0 dx = Inr (ny, nx)"
      using res one by simp
  }
next
  assume a: "0 < height s \<and> v_wormholes s (y, x) = Some (ny, nx) \<and> (dy = 1 \<or> dy = -1)"
  then show res: "get_wormhole_neighbor s y x dy 0 = Inr ((ny + dy) mod int (height s), nx)"
    by (auto simp: get_wormhole_neighbor_def horizontal_move_def vertical_move_def or_else_def
        py_mod_pos)
  {
    assume "2 \<le> height s"
    then show "((ny + dy) mod int (height s), nx) \<noteq> (ny, nx)"
      using a mod_step_differs [of "height s" dy ny] by simp
  }
  {
    assume one: "height s = 1 \<and> table_in_grid (height s) (width s) (v_wormholes s)"
    have "0 \<le> ny \<and> ny < int (height s)"
      using table_value_in_grid [OF one [THEN conjunct2] a [THEN conjunct2, THEN conjunct1]]
      by simp
    then have "ny = 0"
      using one by simp
    then show "get_wormhole_neighbor s y x dy 0 = Inr (ny, nx)"
      using res one by simp
  }
qed

theorem straight_move_through_wormhole_witness:
  "((0 < width portal \<and> h_wormholes portal (0, 0) = Some (0, 2) \<and> ((1::int) = 1 \<or> (1::int) = -1)) \<and>
    get_wormhole_neighbor portal 0 0 0 1 = Inr (0, (2 + 1) mod int (width portal)) \<and>
    2 \<le> width portal \<and> (0, (2 + 1) mod int (width portal)) \<noteq> (0 :: int, 2 :: int)) \<and>
   ((0 < height portal \<and> v_wormholes portal (0, 0) = Some (2, 0) \<and> ((-1::int) = 1 \<or> (-1::int) = -1)) \<and>
    get_wormhole_neighbor portal 0 0 (-1) 0 = Inr ((2 + (-1)) mod int (height portal), 0) \<and>
    2 \<le> height portal \<and> ((2 + (-1)) mod int (height portal), 0) \<noteq> (2 :: int, 0 :: int)) \<and>
   ((0 < width column \<and> h_wormholes column (0, 0) = Some (1, 0) \<and> ((1::int) = 1 \<or> (1::int) = -1)) \<and>
    width column = 1 \<and> table_in_grid (height column) (width column) (h_wormholes column) \<and>
    get_wormhole_neighbor column 0 0 0 1 = Inr (1, 0)) \<and>
   ((0 < height strip \<and> v_wormholes strip (0, 0) = Some (0, 1) \<and> ((1::int) = 1 \<or> (1::int) = -1)) \<and>
    height strip = 1 \<and> table_in_grid (height strip) (width strip) (v_wormholes strip) \<and>
    get_wormhole_neighbor strip 0 0 1 0 = Inr (0, 1))"
proof -
  have a: "0 < width portal \<and> h_wormholes portal (0, 0) = Some (0, 2) \<and> ((1::int) = 1 \<or> (1::int) = -1)"
    by (simp add: portal_def)
  have b: "2 \<le> width portal"
    by (simp add: portal_def)
  have c: "0 < height portal \<and> v_wormholes portal (0, 0) = Some (2, 0) \<and> ((-1::int) = 1 \<or> (-1::int) = -1)"
    by (simp add: portal_def)
  have d: "2 \<le> height portal"
    by (simp add: portal_def)
  have e: "0 < width column \<and> h_wormholes column (0, 0) = Some (1, 0) \<and> ((1::int) = 1 \<or> (1::int) = -1)"
    by (simp add: column_def)
  have "table_in_grid 2 1 (h_wormholes column)"
    using build_column by (rule build_in_grid)
  then have f: "width column = 1 \<and> table_in_grid (height column) (width column) (h_wormholes column)"
    by (simp add: column_def)
  have g: "0 < height strip \<and> v_wormholes strip (0, 0) = Some (0, 1) \<and> ((1::int) = 1 \<or> (1::int) = -1)"
    by (simp add: strip_def)
  have "table_in_grid 1 2 (v_wormholes strip)"
    using build_strip by (rule build_in_grid)
  then have h: "height strip = 1 \<and> table_in_grid (height strip) (width strip) (v_wormholes strip)"
    by (simp add: strip_def)
  note horizontal = straight_move_through_wormhole [THEN conjunct1, rule_format]
  note vertical = straight_move_through_wormhole [THEN conjunct2, rule_format]
  have "get_wormhole_neighbor portal 0 0 0 1 = Inr (0, (2 + 1) mod int (width portal))"
    using horizontal [OF a] by (rule conjunct1)
  moreover have "(0, (2 + 1) mod int (width portal)) \<noteq> (0 :: int, 2 :: int)"
    using horizontal [OF a, THEN conjunct2, THEN conjunct1, rule_format, OF b] .
  moreover have "get_wormhole_neighbor portal 0 0 (-1) 0 = Inr ((2 + (-1)) mod int (height portal), 0)"
    using vertical [OF c] by (rule conjunct1)
  moreover have "((2 + (-1)) mod int (height portal), 0) \<noteq> (2 :: int, 0 :: int)"
    using vertical [OF c, THEN conjunct2, THEN conjunct1, rule_format, OF d] .
  moreover have "get_wormhole_neighbor column 0 0 0 1 = Inr (1, 0)"
    using horizontal [OF e, THEN conjunct2, THEN conjunct2, rule_format, OF f] .
  moreover have "get_wormhole_neighbor strip 0 0 1 0 = Inr (0, 1)"
    using vertical [OF g, THEN conjunct2, THEN conjunct2, rule_format, OF h] .
  ultimately show ?thesis
    using a b c d e f g h by blast
qed

text \<open>
  C3 as stated fails on a grid one column wide. The tunnel map \<open>column_tunnel\<close> has the
  same colour at \<open>(0, 0)\<close> and \<open>(1, 0)\<close>, so the builder pairs the two cells; a move to
  the right from \<open>(0, 0)\<close> then lands on \<open>(1, 0)\<close>, the paired cell itself.
\<close>

theorem paired_cell_counterexample:
  "build_wormhole_connections 2 1 column_tunnel = Inr (h_wormholes column) \<and>
   h_wormholes column (0, 0) = Some (1, 0) \<and>
   get_wormhole_neighbor column 0 0 0 1 = Inr (1, 0)"
  by (simp add: build_wormhole_connections_def column_tunnel_def column_def scan_pixel_def
      grid_get_def upt_rec get_wormhole_neighbor_def horizontal_move_def or_else_def py_mod_def)

section \<open>The blinker\<close>

lemma step_blinker:
  "step blinker =
     Inr ([[1, 1, 1], [1, 1, 1], [1, 1, 1]], blinker\<lparr>grid := [[1, 1, 1], [1, 1, 1], [1, 1, 1]]\<rparr>)"
proof -
  have "map (\<lambda>y. map (\<lambda>x. cell_after blinker y x (grid blinker ! y ! x)) [0..<width blinker])
            [0..<height blinker] = [[1, 1, 1], [1, 1, 1], [1, 1, 1]]"
    by code_simp
  then show ?thesis
    using step_eq [OF engine_ok_blinker] by simp
qed

lemma step_blinker_again:
  "step (blinker\<lparr>grid := [[1, 1, 1], [1, 1, 1], [1, 1, 1]]\<rparr>) =
     Inr ([[0, 0, 0], [0, 0, 0], [0, 0, 0]], blinker\<lparr>grid := [[0, 0, 0], [0, 0, 0], [0, 0, 0]]\<rparr>)"
proof -
  let ?s = "blinker\<lparr>grid := [[1, 1, 1], [1, 1, 1], [1, 1, 1]]\<rparr>"
  have ok: "engine_ok ?s"
    by (simp add: engine_ok_def grid_ok_def blinker_def)
  have "map (\<lambda>y. map (\<lambda>x. cell_after ?s y x (grid ?s ! y ! x)) [0..<width ?s])
            [0..<height ?s] = [[0, 0, 0], [0, 0, 0], [0, 0, 0]]"
    by code_simp
  then show ?thesis
    using step_eq [OF ok] by simp
qed

lemma step_blinker5:
  "step blinker5 =
     Inr ([[0, 0, 0, 0, 0], [0, 0, 1, 0, 0], [0, 0, 1, 0, 0], [0, 0, 1, 0, 0], [0, 0, 0, 0, 0]],
          blinker5\<lparr>grid := [[0, 0, 0, 0, 0], [0, 0, 1, 0, 0], [0, 0, 1, 0, 0], [0, 0, 1, 0, 0],
                             [0, 0, 0, 0, 0]]\<rparr>)"
proof -
  have "map (\<lambda>y. map (\<lambda>x. cell_after blinker5 y x (grid blinker5 ! y ! x)) [0..<width blinker5])
            [0..<height blinker5] =
        [[0, 0, 0, 0, 0], [0, 0, 1, 0, 0], [0, 0, 1, 0, 0], [0, 0, 1, 0, 0], [0, 0, 0, 0, 0]]"
    by code_simp
  then show ?thesis
    using step_eq [OF engine_ok_blinker5] by simp
qed

lemma step_blinker5_again:
  "step (blinker5\<lparr>grid := [[0, 0, 0, 0, 0], [0, 0, 1, 0, 0], [0, 0, 1, 0, 0], [0, 0, 1, 0, 0],
                             [0, 0, 0, 0, 0]]\<rparr>) =
     Inr (grid blinker5, blinker5)"
proof -
  let ?s = "blinker5\<lparr>grid := [[0, 0, 0, 0, 0], [0, 0, 1, 0, 0], [0, 0, 1, 0, 0], [0, 0, 1, 0, 0],
                             [0, 0, 0, 0, 0]]\<rparr>"
  have ok: "engine_ok ?s"
    by (simp add: engine_ok_def grid_ok_def blinker5_def)
  have "map (\<lambda>y. map (\<lambda>x. cell_after ?s y x (grid ?s ! y ! x)) [0..<width ?s])
            [0..<height ?s] = grid blinker5"
    by code_simp
  then show ?thesis
    using step_eq [OF ok] by simp
qed

text \<open>
  C9 as stated fails: on the 3 by 3 torus each cell has the eight other cells as its
  neighbours, so every dead cell counts the three live cells of the middle row and comes
  alive, and every live cell counts two and stays alive. One step from the horizontal
  blinker gives the grid of nine live cells, not the vertical blinker.
\<close>

theorem blinker_3x3_counterexample:
  "step blinker =
     Inr ([[1, 1, 1], [1, 1, 1], [1, 1, 1]], blinker\<lparr>grid := [[1, 1, 1], [1, 1, 1], [1, 1, 1]]\<rparr>) \<and>
   [[1, 1, 1], [1, 1, 1], [1, 1, 1]] \<noteq> [[0, 1, 0], [0, 1, 0], [0, 1, 0 :: nat]]"
  using step_blinker by simp

text \<open>
  C9, as the code has it. On the 3 by 3 grid without wormholes, with exactly \<open>(1, 0)\<close>,
  \<open>(1, 1)\<close>, \<open>(1, 2)\<close> alive, one step gives the grid with all nine cells alive and a
  second step the grid with all cells dead. On the 5 by 5 grid with exactly \<open>(2, 1)\<close>,
  \<open>(2, 2)\<close>, \<open>(2, 3)\<close> alive, one step gives exactly \<open>(1, 2)\<close>, \<open>(2, 2)\<close>, \<open>(3, 2)\<close>
  alive and a second step gives back the first grid: there the blinker has period 2.
\<close>

theorem blinker_on_torus:
  "step blinker =
     Inr ([[1, 1, 1], [1, 1, 1], [1, 1, 1]], blinker\<lparr>grid := [[1, 1, 1], [1, 1, 1], [1, 1, 1]]\<rparr>) \<and>
   step (blinker\<lparr>grid := [[1, 1, 1], [1, 1, 1], [1, 1, 1]]\<rparr>) =
     Inr ([[0, 0, 0], [0, 0, 0], [0, 0, 0]], blinker\<lparr>grid := [[0, 0, 0], [0, 0, 0], [0, 0, 0]]\<rparr>) \<and>
   step blinker5 =
     Inr ([[0, 0, 0, 0, 0], [0, 0, 1, 0, 0], [0, 0, 1, 0, 0], [0, 0, 1, 0, 0], [0, 0, 0, 0, 0]],
          blinker5\<lparr>grid := [[0, 0, 0, 0, 0], [0, 0, 1, 0, 0], [0, 0, 1, 0, 0], [0, 0, 1, 0, 0],
                             [0, 0, 0, 0, 0]]\<rparr>) \<and>
   step (blinker5\<lparr>grid := [[0, 0, 0, 0, 0], [0, 0, 1, 0, 0], [0, 0, 1, 0, 0], [0, 0, 1, 0, 0],
                             [0, 0, 0, 0, 0]]\<rparr>) =
     Inr (grid blinker5, blinker5)"
  using step_blinker step_blinker_again step_blinker5 step_blinker5_again by (intro conjI)

section \<open>Running for a number of steps\<close>

lemma for_each_same_length:
  "length xs = length ys \<Longrightarrow> for_each xs (\<lambda>_. body) st = for_each ys (\<lambda>_. body) st"
proof (induction xs arbitrary: ys st)
  case Nil
  then show ?case by simp
next
  case (Cons i xs)
  then obtain j zs where ys: "ys = j # zs" and len: "length xs = length zs"
    by (cases ys) auto
  show ?case
    by (cases "body st") (simp_all add: ys Cons.IH [OF len])
qed

lemma run_simulation_loop:
  "run_simulation s (int n) =
     bind_err (for_each [0..<n] (\<lambda>_. advance) s) (\<lambda>st. Inr (grid st, st))"
  by (simp add: run_simulation_def py_range_def)

lemma run_simulation_Suc:
  "run_simulation s (int (Suc n)) =
     bind_err (step s) (\<lambda>(new_grid, s'). run_simulation s' (int n))"
proof -
  have "for_each [0..<Suc n] (\<lambda>_. advance) s = for_each (0 # [0..<n]) (\<lambda>_. advance) s"
    by (rule for_each_same_length) simp
  then have "run_simulation s (int (Suc n)) =
     bind_err (bind_err (advance s) (for_each [0..<n] (\<lambda>_. advance))) (\<lambda>st. Inr (grid st, st))"
    by (simp only: run_simulation_loop for_each.simps)
  then show ?thesis
    by (cases "step s") (auto simp: advance_def run_simulation_loop)
qed

lemma run_simulation_add:
  "bind_err (run_simulation s (int a)) (\<lambda>(g, s'). run_simulation s' (int b)) =
     run_simulation s (int (a + b))"
proof -
  have split: "[0..<a + b] = [0..<a] @ [a..<a + b]"
    by (rule upt_add_eq_append) simp
  have rest: "for_each [a..<a + b] (\<lambda>_. advance) st = for_each [0..<b] (\<lambda>_. advance) st" for st
    by (rule for_each_same_length) simp
  show ?thesis
  proof (cases "for_each [0..<a] (\<lambda>_. advance) s")
    case (Inl e)
    then show ?thesis
      by (simp only: run_simulation_loop split for_each_append bind_err_Inl)
  next
    case (Inr st)
    then show ?thesis
      by (simp only: run_simulation_loop split for_each_append bind_err_Inr rest
          prod.case)
  qed
qed

lemma step_keeps_ok:
  assumes "engine_ok s"
  shows "\<exists>g. step s = Inr (g, s\<lparr>grid := g\<rparr>) \<and> engine_ok (s\<lparr>grid := g\<rparr>)"
  using step_returns [OF assms] by (auto simp: engine_ok_def)

lemma run_simulation_returns:
  "engine_ok s \<Longrightarrow>
     \<exists>s'. run_simulation s (int n) = Inr (grid s', s') \<and> engine_ok s'"
proof (induction n arbitrary: s)
  case 0
  then show ?case
    using run_simulation_loop [of s 0] by simp
next
  case (Suc n)
  obtain g where g: "step s = Inr (g, s\<lparr>grid := g\<rparr>)" "engine_ok (s\<lparr>grid := g\<rparr>)"
    using step_keeps_ok [OF Suc.prems] by blast
  show ?case
    using Suc.IH [OF g(2)] unfolding run_simulation_Suc g(1) by simp
qed

text \<open>
  C8. \<open>run_simulation\<close> applies \<open>step\<close> as many times as \<open>steps\<close> says: for 0 steps
  it returns the grid and the engine as they are, for \<open>n + 1\<close> steps it is one \<open>step\<close>
  followed by \<open>run_simulation\<close> for \<open>n\<close> steps, and running \<open>a\<close> steps and then \<open>b\<close>
  steps on the engine so reached is running \<open>a + b\<close> steps (the same returned grid and the
  same engine, or the same exception). On a well-formed engine every run returns, with
  the grid of the engine it leaves.
\<close>

theorem run_simulation_composes:
  "run_simulation s 0 = Inr (grid s, s) \<and>
   run_simulation s (int (Suc n)) =
     bind_err (step s) (\<lambda>(new_grid, s'). run_simulation s' (int n)) \<and>
   bind_err (run_simulation s (int a)) (\<lambda>(g, s'). run_simulation s' (int b)) =
     run_simulation s (int (a + b)) \<and>
   (engine_ok s \<longrightarrow> (\<exists>s'. run_simulation s (int a) = Inr (grid s', s') \<and> engine_ok s'))"
proof (intro conjI impI)
  show "run_simulation s 0 = Inr (grid s, s)"
    using run_simulation_loop [of s 0] by simp
  show "run_simulation s (int (Suc n)) =
     bind_err (step s) (\<lambda>(new_grid, s'). run_simulation s' (int n))"
    by (rule run_simulation_Suc)
  show "bind_err (run_simulation s (int a)) (\<lambda>(g, s'). run_simulation s' (int b)) =
     run_simulation s (int (a + b))"
    by (rule run_simulation_add)
  show "\<exists>s'. run_simulation s (int a) = Inr (grid s', s') \<and> engine_ok s'" if "engine_ok s"
    using that by (rule run_simulation_returns)
qed

theorem run_simulation_composes_witness:
  "engine_ok blinker \<and>
   (\<exists>s'. run_simulation blinker (int 2) = Inr (grid s', s') \<and> engine_ok s') \<and>
   bind_err (run_simulation blinker (int 2)) (\<lambda>(g, s'). run_simulation s' (int 1)) =
     run_simulation blinker (int (2 + 1))"
proof -
  note run = run_simulation_composes [of blinker 0 2 1]
  have "\<exists>s'. run_simulation blinker (int 2) = Inr (grid s', s') \<and> engine_ok s'"
    using run engine_ok_blinker by blast
  moreover have "bind_err (run_simulation blinker (int 2)) (\<lambda>(g, s'). run_simulation s' (int 1)) =
     run_simulation blinker (int (2 + 1))"
    using run by blast
  ultimately show ?thesis
    using engine_ok_blinker by blast
qed

text \<open>
  C10. For a negative number of steps \<open>run_simulation\<close> performs no step, raises nothing
  and returns the current grid with the engine unchanged, as \<open>run_simulation 0\<close> does.
\<close>

theorem run_simulation_negative:
  "steps < 0 \<Longrightarrow>
     run_simulation s steps = Inr (grid s, s) \<and> run_simulation s steps = run_simulation s 0"
  by (simp add: run_simulation_def py_range_def)

theorem run_simulation_negative_witness:
  "(-3 :: int) < 0 \<and> run_simulation blinker (-3) = Inr (grid blinker, blinker) \<and>
   run_simulation blinker (-3) = run_simulation blinker 0"
proof -
  have neg: "(-3 :: int) < 0" by simp
  show ?thesis
    using neg run_simulation_negative [OF neg, of blinker] by (rule conjI)
qed

end
